theory Spec2Isabelle
  imports Complex_Main
begin

section \<open>Values\<close>

text \<open>
  A JavaScript string is a sequence of UTF-16 code units, an embedding is an array of
  numbers, a \<open>Date\<close> is its number of milliseconds. A JavaScript number that stands for
  an id or a size is an integer or \<open>NaN\<close>; an optional property is an \<open>option\<close> whose
  \<open>None\<close> is \<open>undefined\<close>.
\<close>

type_synonym js_string = "nat list"
type_synonym vector = "real list"
type_synonym date = int

datatype jsnum = NaN | Num int

text \<open>The truthiness test of \<open>if (x)\<close> and \<open>x || d\<close> on an optional number.\<close>

fun truthy :: "jsnum option \<Rightarrow> bool" where
  "truthy None = False"
| "truthy (Some NaN) = False"
| "truthy (Some (Num n)) = (n \<noteq> 0)"

text \<open>
  \<open>String.prototype.trim\<close> removes the code units of ECMAScript's WhiteSpace and
  LineTerminator productions from both ends.
\<close>

definition is_white_space :: "nat \<Rightarrow> bool" where
  "is_white_space c \<longleftrightarrow>
     c = 9 \<or> c = 10 \<or> c = 11 \<or> c = 12 \<or> c = 13 \<or> c = 32 \<or> c = 160 \<or> c = 5760
     \<or> (8192 \<le> c \<and> c \<le> 8202) \<or> c = 8232 \<or> c = 8233 \<or> c = 8239 \<or> c = 8287
     \<or> c = 12288 \<or> c = 65279"

definition trim :: "js_string \<Rightarrow> js_string" where
  "trim s = rev (dropWhile is_white_space (rev (dropWhile is_white_space s)))"

section \<open>The messages table\<close>

datatype message_type = Text | Photo | Video | Document | Sticker | Other

text \<open>
  The columns that \<open>createMessage\<close> fills; a nullable column is an \<open>option\<close> whose
  \<open>None\<close> is SQL \<open>NULL\<close>. The table is the list of its rows.
\<close>

record message =
  msg_id :: int
  msg_chatId :: int
  msg_type :: message_type
  msg_content :: "js_string option"
  msg_embedding :: "vector option"
  msg_mediaInfo :: "js_string option"
  msg_createdAt :: date
  msg_fromId :: "int option"
  msg_replyToId :: "int option"
  msg_forwardFromChatId :: "int option"
  msg_forwardFromMessageId :: "int option"
  msg_views :: "int option"
  msg_forwards :: "int option"

datatype db_error = UniqueViolation | NegativeOffset | BigintOutOfRange | EmptyValues

text \<open>The largest value of the \<open>bigint\<close> that PostgreSQL reads a row count into.\<close>

definition bigint_max :: int where
  "bigint_max = 9223372036854775807"

text \<open>
  \<open>.limit(n)\<close>: the query builder writes the \<open>LIMIT\<close> clause when \<open>n\<close> is not negative and
  leaves it out otherwise, so that a negative \<open>n\<close> returns every row. PostgreSQL rejects a
  count beyond \<open>bigint\<close>.
\<close>

definition sql_limit :: "int \<Rightarrow> 'a list \<Rightarrow> db_error + 'a list" where
  "sql_limit n rows =
     (if n < 0 then Inr rows
      else if bigint_max < n then Inl BigintOutOfRange
      else Inr (take (nat n) rows))"

text \<open>
  \<open>.offset(k)\<close>: the \<open>OFFSET\<close> clause is written when \<open>k\<close> is not zero; PostgreSQL rejects a
  negative offset and one beyond \<open>bigint\<close>.
\<close>

definition sql_offset :: "int \<Rightarrow> 'a list \<Rightarrow> db_error + 'a list" where
  "sql_offset k rows =
     (if k < 0 then Inl NegativeOffset
      else if bigint_max < k then Inl BigintOutOfRange
      else Inr (drop (nat k) rows))"

section \<open>The embedding backfill (\<open>embed\<close>)\<close>

record embed_options =
  batchSize :: "jsnum option"
  chatId :: "jsnum option"

text \<open>
  What commander parsed from the command line: \<open>Number(opts.batchSize)\<close> (the flag
  defaults to \<open>'100'\<close>), and \<open>Number(opts.chatId)\<close> when \<open>opts.chatId\<close> is a
  non-empty string.
\<close>

record cli_opts =
  cli_batchSize :: jsnum
  cli_chatId :: "jsnum option"

definition resolve_options :: "cli_opts \<Rightarrow> embed_options \<Rightarrow> embed_options" where
  "resolve_options cli options =
     (if \<not> truthy (batchSize options)
      then options\<lparr>batchSize := Some (cli_batchSize cli), chatId := cli_chatId cli\<rparr>
      else options)"

text \<open>\<open>options.batchSize || 100\<close>\<close>

fun batch_size_or_default :: "jsnum option \<Rightarrow> int" where
  "batch_size_or_default (Some (Num n)) = (if n = 0 then 100 else n)"
| "batch_size_or_default _ = 100"

text \<open>
  \<open>if (chatId) conditions.push(eq(messages.chatId, chatId))\<close>: the restriction to a chat
  is there when the chat id is truthy.
\<close>

definition chat_condition :: "jsnum option \<Rightarrow> message \<Rightarrow> bool" where
  "chat_condition chat m =
     (if truthy chat then (case chat of Some (Num c) \<Rightarrow> msg_chatId m = c | _ \<Rightarrow> False) else True)"

text \<open>\<open>conditions\<close>: \<open>isNull(messages.embedding)\<close> and the restriction to the chat.\<close>

definition conditions :: "jsnum option \<Rightarrow> message \<Rightarrow> bool" where
  "conditions chat m = (msg_embedding m = None \<and> chat_condition chat m)"

definition count_eligible :: "jsnum option \<Rightarrow> message list \<Rightarrow> nat" where
  "count_eligible chat table = length (filter (conditions chat) table)"

text \<open>The projection \<open>{ id, content }\<close> of the batch select.\<close>

record batch_row =
  row_id :: int
  row_content :: "js_string option"

definition project :: "message \<Rightarrow> batch_row" where
  "project m = \<lparr>row_id = msg_id m, row_content = msg_content m\<rparr>"

definition select_batch :: "jsnum option \<Rightarrow> message list \<Rightarrow> int \<Rightarrow> db_error + batch_row list" where
  "select_batch chat table n = sql_limit n (map project (filter (conditions chat) table))"

text \<open>\<open>msg.content && msg.content.trim().length > 0\<close>\<close>

definition has_content :: "batch_row \<Rightarrow> bool" where
  "has_content msg = (case row_content msg of None \<Rightarrow> False | Some c \<Rightarrow> c \<noteq> [] \<and> trim c \<noteq> [])"

text \<open>\<open>msg.content!.trim()\<close>, on the rows that passed the filter.\<close>

definition trimmed_content :: "batch_row \<Rightarrow> js_string" where
  "trimmed_content msg = (case row_content msg of None \<Rightarrow> [] | Some c \<Rightarrow> trim c)"

text \<open>
  \<open>db.update(messages).set({ embedding: v }).where(eq(messages.id, i))\<close>: every row whose
  id is \<open>i\<close> gets the embedding.
\<close>

definition update_embedding :: "message list \<Rightarrow> int \<Rightarrow> vector \<Rightarrow> message list" where
  "update_embedding table i v =
     map (\<lambda>m. if msg_id m = i then m\<lparr>msg_embedding := Some v\<rparr> else m) table"

datatype log_entry =
    WarnNoValidContent
  | DebugProgress nat nat
  | WarnBatchFailed nat

text \<open>
  The loop's variables (\<open>processed\<close>, \<open>failed\<close>), the table, and what the run did to its
  collaborators: the length of every batch the select returned, the \<open>texts\<close> of every
  call of the provider, every update statement dispatched, and the logger's lines.
\<close>

record loop_state =
  store :: "message list"
  processed :: nat
  failed :: nat
  fetched :: "nat list"
  sent :: "js_string list list"
  issued :: "(int \<times> vector) list"
  logged :: "log_entry list"

text \<open>
  The two collaborators that can throw inside the \<open>try\<close>. \<open>gen k texts\<close> is what the
  \<open>k\<close>-th call of \<open>generateEmbeddings\<close> answers (\<open>None\<close>: it throws); \<open>wfail k i\<close> says that
  the update of message \<open>i\<close> dispatched after that call is rejected.
\<close>

type_synonym provider = "nat \<Rightarrow> js_string list \<Rightarrow> vector list option"
type_synonym write_faults = "nat \<Rightarrow> int \<Rightarrow> bool"

text \<open>The \<open>catch\<close> block.\<close>

definition caught :: "nat \<Rightarrow> loop_state \<Rightarrow> loop_state" where
  "caught n s = s\<lparr>failed := failed s + n, processed := processed s + n,
                  logged := logged s @ [WarnBatchFailed n]\<rparr>"

text \<open>
  \<open>Promise.all\<close> starts every update of the batch; an update that is rejected changes
  nothing and makes \<open>Promise.all\<close> reject, the other updates still reach the table.
\<close>

definition apply_updates :: "write_faults \<Rightarrow> nat \<Rightarrow> message list \<Rightarrow> (int \<times> vector) list \<Rightarrow> message list" where
  "apply_updates wfail k table ws =
     foldl (\<lambda>t (i, v). if wfail k i then t else update_embedding t i v) table ws"

text \<open>
  The vector that the updates of a batch leave for message \<open>i\<close>: the last one whose
  update is not rejected.
\<close>

definition written :: "write_faults \<Rightarrow> nat \<Rightarrow> (int \<times> vector) list \<Rightarrow> int \<Rightarrow> vector option" where
  "written wfail k ws i = map_of (rev (filter (\<lambda>w. \<not> wfail k (fst w)) ws)) i"

text \<open>
  The body of the \<open>try\<close> with its \<open>catch\<close>. When the provider answers with fewer vectors
  than texts, \<open>embeddings[idx]\<close> is \<open>undefined\<close> for some row and \<open>set\<close> has no value to
  write: it throws while the updates are being built, before any of them is sent.
\<close>

definition process_batch :: "provider \<Rightarrow> write_faults \<Rightarrow> batch_row list \<Rightarrow> loop_state \<Rightarrow> loop_state" where
  "process_batch gen wfail batch s =
     (let validBatch = filter has_content batch in
      if validBatch = [] then
        s\<lparr>processed := processed s + length batch, failed := failed s + length batch,
          logged := logged s @ [WarnNoValidContent]\<rparr>
      else
        let texts = map trimmed_content validBatch;
            k = length (sent s);
            s1 = s\<lparr>sent := sent s @ [texts]\<rparr>
        in case gen k texts of
             None \<Rightarrow> caught (length batch) s1
           | Some embeddings \<Rightarrow>
               if length embeddings < length validBatch then caught (length batch) s1
               else
                 let ws = zip (map row_id validBatch) embeddings;
                     s2 = s1\<lparr>store := apply_updates wfail k (store s1) ws,
                             issued := issued s1 @ ws\<rparr>
                 in if \<exists>w \<in> set ws. wfail k (fst w) then caught (length batch) s2
                    else
                      let skipped = length batch - length validBatch in
                      s2\<lparr>processed := processed s2 + length batch,
                         failed := failed s2 + skipped,
                         logged := logged s2 @ [DebugProgress (processed s2 + length batch) skipped]\<rparr>)"

text \<open>
  The \<open>while\<close> loop. A select that fails is not inside the inner \<open>try\<close>: it ends the run
  (\<open>process.exit(1)\<close>). A negative batch size fetches every eligible row at once.
\<close>

function embed_loop ::
  "provider \<Rightarrow> write_faults \<Rightarrow> jsnum option \<Rightarrow> int \<Rightarrow> nat \<Rightarrow> loop_state \<Rightarrow> db_error + loop_state" where
  "embed_loop gen wfail chat n count s =
     (if processed s < count then
        (case select_batch chat (store s) n of
           Inl e \<Rightarrow> Inl e
         | Inr batch \<Rightarrow>
             if batch = [] then Inr (s\<lparr>fetched := fetched s @ [0]\<rparr>)
             else embed_loop gen wfail chat n count
                    (process_batch gen wfail batch (s\<lparr>fetched := fetched s @ [length batch]\<rparr>)))
      else Inr s)"
  by pat_completeness auto
termination
  by (relation "measure (\<lambda>(gen, wfail, chat, n, count, s). count - processed s)")
     (auto simp: process_batch_def caught_def Let_def neq_Nil_conv split: option.splits)

definition init_state :: "message list \<Rightarrow> loop_state" where
  "init_state table = \<lparr>store = table, processed = 0, failed = 0, fetched = [], sent = [],
                       issued = [], logged = []\<rparr>"

definition embed ::
  "provider \<Rightarrow> write_faults \<Rightarrow> cli_opts \<Rightarrow> embed_options \<Rightarrow> message list \<Rightarrow> db_error + loop_state" where
  "embed gen wfail cli options0 table =
     (let options = resolve_options cli options0;
          n = batch_size_or_default (batchSize options);
          count = count_eligible (chatId options) table
      in if count = 0 then Inr (init_state table)
         else embed_loop gen wfail (chatId options) n count (init_state table))"

text \<open>
  The loop heads of a run: \<open>visits \<dots> s t\<close> says that the loop entered in state \<open>s\<close>
  comes to test its condition in state \<open>t\<close>.
\<close>

inductive visits ::
  "provider \<Rightarrow> write_faults \<Rightarrow> jsnum option \<Rightarrow> int \<Rightarrow> nat \<Rightarrow> loop_state \<Rightarrow> loop_state \<Rightarrow> bool"
  for gen wfail chat n count where
    here: "visits gen wfail chat n count s s"
  | iteration: "processed s < count \<Longrightarrow> select_batch chat (store s) n = Inr batch \<Longrightarrow> batch \<noteq> [] \<Longrightarrow>
       visits gen wfail chat n count
         (process_batch gen wfail batch (s\<lparr>fetched := fetched s @ [length batch]\<rparr>)) t \<Longrightarrow>
       visits gen wfail chat n count s t"

text \<open>
  The specification's words for a row without text: its content is absent, empty or
  made of white space only.
\<close>

definition blank :: "js_string option \<Rightarrow> bool" where
  "blank content = (case content of None \<Rightarrow> True | Some c \<Rightarrow> list_all is_white_space c)"

section \<open>Similarity search (\<open>findSimilarMessages\<close>)\<close>

record search_options =
  search_chatId :: "jsnum option"
  search_type :: "message_type option"
  search_startTime :: "date option"
  search_endTime :: "date option"
  search_limit :: "int option"
  search_offset :: "int option"

record similar_row =
  sim_id :: int
  sim_chatId :: int
  sim_type :: message_type
  sim_content :: "js_string option"
  sim_createdAt :: date
  sim_fromId :: "int option"
  similarity :: real

text \<open>The conditions pushed for the filters that are truthy (a \<open>Date\<close> always is).\<close>

definition search_conditions :: "search_options \<Rightarrow> message \<Rightarrow> bool" where
  "search_conditions options m =
     (chat_condition (search_chatId options) m
      \<and> (case search_type options of None \<Rightarrow> True | Some t \<Rightarrow> msg_type m = t)
      \<and> (case search_startTime options of None \<Rightarrow> True | Some t \<Rightarrow> msg_createdAt m > t)
      \<and> (case search_endTime options of None \<Rightarrow> True | Some t \<Rightarrow> msg_createdAt m < t))"

text \<open>
  The selected columns. The distance operator \<open><=>\<close> belongs to the vector extension and
  is a parameter. On a row whose embedding is \<open>NULL\<close> the similarity is \<open>NULL\<close> and the
  condition \<open>embedding IS NOT NULL\<close> fails: there is no result row.
\<close>

definition select_similar :: "(vector \<Rightarrow> vector \<Rightarrow> real) \<Rightarrow> vector \<Rightarrow> message \<Rightarrow> similar_row option" where
  "select_similar cosine_distance embedding m =
     (case msg_embedding m of
        None \<Rightarrow> None
      | Some e \<Rightarrow> Some \<lparr>sim_id = msg_id m, sim_chatId = msg_chatId m, sim_type = msg_type m,
                        sim_content = msg_content m, sim_createdAt = msg_createdAt m,
                        sim_fromId = msg_fromId m,
                        similarity = 1 - cosine_distance e embedding\<rparr>)"

text \<open>All matching rows, \<open>ORDER BY similarity DESC\<close>.\<close>

definition similar_ordered ::
  "(vector \<Rightarrow> vector \<Rightarrow> real) \<Rightarrow> message list \<Rightarrow> vector \<Rightarrow> search_options \<Rightarrow> similar_row list" where
  "similar_ordered cosine_distance table embedding options =
     sort_key (\<lambda>r. - similarity r)
       (List.map_filter (select_similar cosine_distance embedding)
          (filter (search_conditions options) table))"

definition findSimilarMessages ::
  "(vector \<Rightarrow> vector \<Rightarrow> real) \<Rightarrow> message list \<Rightarrow> vector \<Rightarrow> search_options \<Rightarrow> db_error + similar_row list" where
  "findSimilarMessages cosine_distance table embedding options =
     (let limit = (case search_limit options of None \<Rightarrow> 10 | Some l \<Rightarrow> l);
          offset = (case search_offset options of None \<Rightarrow> 0 | Some k \<Rightarrow> k)
      in case sql_offset offset (similar_ordered cosine_distance table embedding options) of
           Inl e \<Rightarrow> Inl e
         | Inr rest \<Rightarrow> sql_limit limit rest)"

section \<open>Inserts with a conflict clause\<close>

text \<open>
  \<open>db.insert(t).values(v)\<close> alone raises on a key that is taken; \<open>onConflictDoNothing\<close>
  skips the row; \<open>onConflictDoUpdate\<close> rewrites the row that is there. The result is the
  new table and the rows of \<open>returning()\<close>.
\<close>

datatype 'r on_conflict = RaiseError | DoNothing | DoUpdate "'r \<Rightarrow> 'r"

definition insert_row ::
  "('r \<Rightarrow> 'k) \<Rightarrow> 'r on_conflict \<Rightarrow> 'r list \<times> 'r list \<Rightarrow> 'r \<Rightarrow> db_error + 'r list \<times> 'r list" where
  "insert_row key clause acc v =
     (case acc of (table, returned) \<Rightarrow>
        if list_ex (\<lambda>r. key r = key v) table then
          (case clause of
             RaiseError \<Rightarrow> Inl UniqueViolation
           | DoNothing \<Rightarrow> Inr (table, returned)
           | DoUpdate f \<Rightarrow>
               Inr (map (\<lambda>r. if key r = key v then f r else r) table,
                    returned @ map f (filter (\<lambda>r. key r = key v) table)))
        else Inr (table @ [v], returned @ [v]))"

fun insert_values ::
  "('r \<Rightarrow> 'k) \<Rightarrow> 'r on_conflict \<Rightarrow> 'r list \<times> 'r list \<Rightarrow> 'r list \<Rightarrow> db_error + 'r list \<times> 'r list" where
  "insert_values key clause acc [] = Inr acc"
| "insert_values key clause acc (v # vs) =
     (case insert_row key clause acc v of
        Inl e \<Rightarrow> Inl e
      | Inr acc' \<Rightarrow> insert_values key clause acc' vs)"

section \<open>\<open>createMessage\<close>\<close>

record new_message =
  nm_id :: int
  nm_chatId :: int
  nm_type :: "message_type option"
  nm_content :: "js_string option"
  nm_mediaInfo :: "js_string option"
  nm_createdAt :: date
  nm_fromId :: "int option"
  nm_replyToId :: "int option"
  nm_forwardFromChatId :: "int option"
  nm_forwardFromMessageId :: "int option"
  nm_views :: "int option"
  nm_forwards :: "int option"

text \<open>\<open>x || null\<close> on an optional string and on an optional number.\<close>

definition string_or_null :: "js_string option \<Rightarrow> js_string option" where
  "string_or_null x = (case x of None \<Rightarrow> None | Some c \<Rightarrow> if c = [] then None else Some c)"

definition number_or_null :: "int option \<Rightarrow> int option" where
  "number_or_null x = (case x of None \<Rightarrow> None | Some n \<Rightarrow> if n = 0 then None else Some n)"

text \<open>The object built for each message; \<open>mediaInfo\<close> is an object, which is truthy.\<close>

definition message_values :: "new_message \<Rightarrow> message" where
  "message_values msg =
     \<lparr>msg_id = nm_id msg, msg_chatId = nm_chatId msg,
      msg_type = (case nm_type msg of None \<Rightarrow> Text | Some t \<Rightarrow> t),
      msg_content = string_or_null (nm_content msg),
      msg_embedding = None,
      msg_mediaInfo = nm_mediaInfo msg,
      msg_createdAt = nm_createdAt msg,
      msg_fromId = number_or_null (nm_fromId msg),
      msg_replyToId = number_or_null (nm_replyToId msg),
      msg_forwardFromChatId = number_or_null (nm_forwardFromChatId msg),
      msg_forwardFromMessageId = number_or_null (nm_forwardFromMessageId msg),
      msg_views = number_or_null (nm_views msg),
      msg_forwards = number_or_null (nm_forwards msg)\<rparr>"

text \<open>
  Modelled from the spec: the unique key of the messages table, whose schema
  (\<open>db/schema/message\<close>) is not among the sources. The specification keys message
  inserts by id.
\<close>

definition message_key :: "message \<Rightarrow> int" where
  "message_key m = msg_id m"

text \<open>
  \<open>createMessage\<close> takes one message or an array; \<open>values\<close> rejects an empty array. An
  error is logged and thrown again.
\<close>

definition createMessage :: "message list \<Rightarrow> new_message list \<Rightarrow> db_error + message list \<times> message list" where
  "createMessage table messageArray =
     (if messageArray = [] then Inl EmptyValues
      else insert_values message_key DoNothing (table, []) (map message_values messageArray))"

section \<open>\<open>updateChat\<close> and \<open>updateFolder\<close>\<close>

text \<open>
  The schema of the two tables is not among the sources. The rows carry the columns the
  functions name; the record's extension stands for every other column. In the insert
  models a column that the schema lets one omit is an \<open>option\<close> whose \<open>None\<close> is
  \<open>undefined\<close>: \<open>values\<close> then takes the column's default, given as a parameter, and the
  \<open>set\<close> of the conflict clause leaves the column out.
\<close>

record chat =
  chat_id :: int
  chat_name :: js_string
  chat_type :: js_string
  chat_lastMessage :: "js_string option"
  chat_lastMessageDate :: "date option"
  chat_lastSyncTime :: date
  chat_messageCount :: int
  chat_folderId :: "int option"

record new_chat =
  nc_id :: int
  nc_name :: js_string
  nc_type :: js_string
  nc_lastMessage :: "js_string option option"
  nc_lastMessageDate :: "date option option"
  nc_lastSyncTime :: "date option"
  nc_messageCount :: "int option"
  nc_folderId :: "int option option"

record folder =
  folder_id :: int
  folder_title :: js_string
  folder_emoji :: "js_string option"
  folder_lastSyncTime :: date

record new_folder =
  nf_id :: int
  nf_title :: js_string
  nf_emoji :: "js_string option option"
  nf_lastSyncTime :: "date option"

definition given :: "'a option \<Rightarrow> 'a \<Rightarrow> 'a" where
  "given x otherwise = (case x of None \<Rightarrow> otherwise | Some v \<Rightarrow> v)"

definition chat_values :: "'a chat_scheme \<Rightarrow> 'a new_chat_scheme \<Rightarrow> 'a chat_scheme" where
  "chat_values defaults data =
     \<lparr>chat_id = nc_id data, chat_name = nc_name data, chat_type = nc_type data,
      chat_lastMessage = given (nc_lastMessage data) (chat_lastMessage defaults),
      chat_lastMessageDate = given (nc_lastMessageDate data) (chat_lastMessageDate defaults),
      chat_lastSyncTime = given (nc_lastSyncTime data) (chat_lastSyncTime defaults),
      chat_messageCount = given (nc_messageCount data) (chat_messageCount defaults),
      chat_folderId = given (nc_folderId data) (chat_folderId defaults),
      \<dots> = new_chat.more data\<rparr>"

definition chat_set :: "'a new_chat_scheme \<Rightarrow> 'a chat_scheme \<Rightarrow> 'a chat_scheme" where
  "chat_set data row =
     row\<lparr>chat_name := nc_name data, chat_type := nc_type data,
         chat_lastMessage := given (nc_lastMessage data) (chat_lastMessage row),
         chat_lastMessageDate := given (nc_lastMessageDate data) (chat_lastMessageDate row),
         chat_lastSyncTime := given (nc_lastSyncTime data) (chat_lastSyncTime row),
         chat_messageCount := given (nc_messageCount data) (chat_messageCount row),
         chat_folderId := given (nc_folderId data) (chat_folderId row)\<rparr>"

definition updateChat ::
  "'a chat_scheme \<Rightarrow> 'a chat_scheme list \<Rightarrow> 'a new_chat_scheme \<Rightarrow>
   db_error + 'a chat_scheme list \<times> 'a chat_scheme list" where
  "updateChat defaults table data =
     insert_row chat_id (DoUpdate (chat_set data)) (table, []) (chat_values defaults data)"

definition folder_values :: "'a folder_scheme \<Rightarrow> 'a new_folder_scheme \<Rightarrow> 'a folder_scheme" where
  "folder_values defaults data =
     \<lparr>folder_id = nf_id data, folder_title = nf_title data,
      folder_emoji = given (nf_emoji data) (folder_emoji defaults),
      folder_lastSyncTime = given (nf_lastSyncTime data) (folder_lastSyncTime defaults),
      \<dots> = new_folder.more data\<rparr>"

definition folder_set :: "'a new_folder_scheme \<Rightarrow> 'a folder_scheme \<Rightarrow> 'a folder_scheme" where
  "folder_set data row =
     row\<lparr>folder_title := nf_title data,
         folder_emoji := given (nf_emoji data) (folder_emoji row),
         folder_lastSyncTime := given (nf_lastSyncTime data) (folder_lastSyncTime row)\<rparr>"

definition updateFolder ::
  "'a folder_scheme \<Rightarrow> 'a folder_scheme list \<Rightarrow> 'a new_folder_scheme \<Rightarrow>
   db_error + 'a folder_scheme list \<times> 'a folder_scheme list" where
  "updateFolder defaults table data =
     insert_row folder_id (DoUpdate (folder_set data)) (table, []) (folder_values defaults data)"

section \<open>Collaborators and rows for the examples\<close>

text \<open>A row of the table as it is before the backfill: a text message without embedding.\<close>

definition text_message :: "int \<Rightarrow> int \<Rightarrow> js_string option \<Rightarrow> message" where
  "text_message i c t = \<lparr>msg_id = i, msg_chatId = c, msg_type = Text, msg_content = t,
     msg_embedding = None, msg_mediaInfo = None, msg_createdAt = 0, msg_fromId = None,
     msg_replyToId = None, msg_forwardFromChatId = None, msg_forwardFromMessageId = None,
     msg_views = None, msg_forwards = None\<rparr>"

text \<open>
  A provider that answers every text with the same vector and one that is down; a
  database that accepts every update and one that rejects the updates of one message.
\<close>

definition always_embeds :: provider where
  "always_embeds k texts = Some (map (\<lambda>t. [1, 0]) texts)"

definition provider_down :: provider where
  "provider_down k texts = None"

definition never_rejects :: write_faults where
  "never_rejects k i = False"

definition rejects :: "int \<Rightarrow> write_faults" where
  "rejects j k i = (i = j)"

text \<open>The cosine distance of two vectors of length 1.\<close>

definition unit_cosine_distance :: "vector \<Rightarrow> vector \<Rightarrow> real" where
  "unit_cosine_distance a b = 1 - sum_list (map2 (*) a b)"

definition no_filter :: search_options where
  "no_filter = \<lparr>search_chatId = None, search_type = None, search_startTime = None,
                 search_endTime = None, search_limit = None, search_offset = None\<rparr>"

text \<open>A text message as the adapter hands it to \<open>createMessage\<close>.\<close>

definition new_text_message :: "int \<Rightarrow> int \<Rightarrow> js_string option \<Rightarrow> new_message" where
  "new_text_message i c t = \<lparr>nm_id = i, nm_chatId = c, nm_type = None, nm_content = t,
     nm_mediaInfo = None, nm_createdAt = 0, nm_fromId = None, nm_replyToId = None,
     nm_forwardFromChatId = None, nm_forwardFromMessageId = None, nm_views = None,
     nm_forwards = None\<rparr>"

text \<open>A command line without flags, and \<open>embed\<close> called without options.\<close>

definition default_cli :: cli_opts where
  "default_cli = \<lparr>cli_batchSize = Num 100, cli_chatId = None\<rparr>"

definition no_options :: embed_options where
  "no_options = \<lparr>batchSize = None, chatId = None\<rparr>"

text \<open>\<open>k\<close> messages of chat 1 without text, with the ids 0 to \<open>k - 1\<close>.\<close>

definition rows_without_text :: "nat \<Rightarrow> message list" where
  "rows_without_text k = map (\<lambda>i. text_message (int i) 1 None) [0..<k]"

section \<open>Facts about the backfill\<close>

lemma processed_process_batch:
  "processed (process_batch gen wfail batch s) = processed s + length batch"
  by (simp add: process_batch_def caught_def Let_def split: option.splits)

lemma trim_empty_iff: "trim c = [] \<longleftrightarrow> list_all is_white_space c"
proof
  assume "trim c = []"
  then have a: "\<forall>x \<in> set (dropWhile is_white_space c). is_white_space x"
    by (simp add: trim_def)
  have "dropWhile is_white_space c = []"
  proof (cases "dropWhile is_white_space c")
    case Nil then show ?thesis .
  next
    case (Cons y ys)
    then have "\<not> is_white_space y" using hd_dropWhile [of is_white_space c] by simp
    moreover have "is_white_space y" using a Cons by simp
    ultimately show ?thesis by simp
  qed
  then show "list_all is_white_space c"
    by (simp add: list_all_iff)
next
  assume "list_all is_white_space c"
  then show "trim c = []"
    by (auto simp: trim_def list_all_iff dest: set_dropWhileD)
qed

lemma has_content_iff: "has_content r \<longleftrightarrow> \<not> blank (row_content r)"
  by (cases "row_content r") (auto simp: has_content_def blank_def trim_empty_iff)

lemma trim_no_white_space_ends:
  "trim c \<noteq> [] \<Longrightarrow> \<not> is_white_space (hd (trim c)) \<and> \<not> is_white_space (last (trim c))"
proof -
  assume ne: "trim c \<noteq> []"
  let ?d = "dropWhile is_white_space (rev (dropWhile is_white_space c))"
  from ne have d: "?d \<noteq> []" by (simp add: trim_def)
  then have h: "\<not> is_white_space (hd ?d)" by (rule hd_dropWhile)
  have "last (trim c) = hd ?d" using d by (simp add: trim_def last_rev)
  with h have l: "\<not> is_white_space (last (trim c))" by simp
  have "hd (trim c) = last ?d" using d by (simp add: trim_def hd_rev)
  also have "\<dots> = last (rev (dropWhile is_white_space c))"
    using d by (metis last_appendR takeWhile_dropWhile_id)
  also have "\<dots> = hd (dropWhile is_white_space c)"
    using d by (metis dropWhile.simps(1) last_rev rev.simps(1))
  finally have "hd (trim c) = hd (dropWhile is_white_space c)" .
  moreover have "dropWhile is_white_space c \<noteq> []"
  proof
    assume "dropWhile is_white_space c = []"
    then have "?d = []" by (simp only: rev.simps dropWhile.simps)
    with d show False by (rule notE)
  qed
  ultimately have "\<not> is_white_space (hd (trim c))" by (simp add: hd_dropWhile)
  with l show ?thesis by simp
qed

lemma process_batch_no_valid:
  "filter has_content batch = [] \<Longrightarrow>
   process_batch gen wfail batch s =
     s\<lparr>processed := processed s + length batch, failed := failed s + length batch,
       logged := logged s @ [WarnNoValidContent]\<rparr>"
  by (simp add: process_batch_def)

lemma process_batch_throws:
  "filter has_content batch \<noteq> [] \<Longrightarrow>
   gen (length (sent s)) (map trimmed_content (filter has_content batch)) = None \<Longrightarrow>
   process_batch gen wfail batch s =
     caught (length batch) (s\<lparr>sent := sent s @ [map trimmed_content (filter has_content batch)]\<rparr>)"
  by (simp add: process_batch_def Let_def)

lemma process_batch_short:
  "filter has_content batch \<noteq> [] \<Longrightarrow>
   gen (length (sent s)) (map trimmed_content (filter has_content batch)) = Some embeddings \<Longrightarrow>
   length embeddings < length (filter has_content batch) \<Longrightarrow>
   process_batch gen wfail batch s =
     caught (length batch) (s\<lparr>sent := sent s @ [map trimmed_content (filter has_content batch)]\<rparr>)"
  by (simp add: process_batch_def Let_def)

lemma process_batch_answered:
  "filter has_content batch \<noteq> [] \<Longrightarrow>
   gen (length (sent s)) (map trimmed_content (filter has_content batch)) = Some embeddings \<Longrightarrow>
   \<not> length embeddings < length (filter has_content batch) \<Longrightarrow>
   ws = zip (map row_id (filter has_content batch)) embeddings \<Longrightarrow>
   s2 = s\<lparr>sent := sent s @ [map trimmed_content (filter has_content batch)],
          store := apply_updates wfail (length (sent s)) (store s) ws,
          issued := issued s @ ws\<rparr> \<Longrightarrow>
   process_batch gen wfail batch s =
     (if \<exists>w \<in> set ws. wfail (length (sent s)) (fst w) then caught (length batch) s2
      else s2\<lparr>processed := processed s + length batch,
              failed := failed s + (length batch - length (filter has_content batch)),
              logged := logged s @ [DebugProgress (processed s + length batch)
                                     (length batch - length (filter has_content batch))]\<rparr>)"
  by (simp add: process_batch_def Let_def)

text \<open>The four ways through an iteration, as a case rule.\<close>

lemma process_batch_cases [case_names no_valid throws short answered]:
  assumes "filter has_content batch = [] \<Longrightarrow> P"
    and "filter has_content batch \<noteq> [] \<Longrightarrow>
         gen (length (sent s)) (map trimmed_content (filter has_content batch)) = None \<Longrightarrow> P"
    and "\<And>embeddings. filter has_content batch \<noteq> [] \<Longrightarrow>
         gen (length (sent s)) (map trimmed_content (filter has_content batch)) = Some embeddings \<Longrightarrow>
         length embeddings < length (filter has_content batch) \<Longrightarrow> P"
    and "\<And>embeddings. filter has_content batch \<noteq> [] \<Longrightarrow>
         gen (length (sent s)) (map trimmed_content (filter has_content batch)) = Some embeddings \<Longrightarrow>
         \<not> length embeddings < length (filter has_content batch) \<Longrightarrow> P"
  shows P
  using assms
  by (cases "filter has_content batch = []";
      cases "gen (length (sent s)) (map trimmed_content (filter has_content batch))") auto

lemma visits_same_run:
  "visits gen wfail chat n count s t \<Longrightarrow>
   embed_loop gen wfail chat n count s = embed_loop gen wfail chat n count t"
  by (induction rule: visits.induct) simp_all

lemma visits_invariant:
  assumes "visits gen wfail chat n count s t" and "I s"
    and step: "\<And>s batch. I s \<Longrightarrow> processed s < count \<Longrightarrow> select_batch chat (store s) n = Inr batch \<Longrightarrow>
            batch \<noteq> [] \<Longrightarrow> I (process_batch gen wfail batch (s\<lparr>fetched := fetched s @ [length batch]\<rparr>))"
  shows "I t"
  using assms(1,2) by (induction rule: visits.induct) (auto intro: step)

lemma embed_loop_exit:
  "embed_loop gen wfail chat n count s = Inr s' \<Longrightarrow>
   \<exists>t. visits gen wfail chat n count s t \<and>
       (count \<le> processed t \<and> s' = t \<or>
        processed t < count \<and> select_batch chat (store t) n = Inr [] \<and> s' = t\<lparr>fetched := fetched t @ [0]\<rparr>)"
proof (induction gen wfail chat n count s rule: embed_loop.induct)
  case (1 gen wfail chat n count s)
  show ?case
  proof (cases "processed s < count")
    case False
    with "1.prems" have "s' = s" by simp
    with False show ?thesis by (auto intro: visits.here)
  next
    case True
    show ?thesis
    proof (cases "select_batch chat (store s) n")
      case (Inl e)
      with True "1.prems" show ?thesis by simp
    next
      case (Inr batch)
      show ?thesis
      proof (cases "batch = []")
        case True
        with \<open>processed s < count\<close> Inr "1.prems" show ?thesis
          by (auto intro: visits.here)
      next
        case False
        let ?s1 = "process_batch gen wfail batch (s\<lparr>fetched := fetched s @ [length batch]\<rparr>)"
        from True Inr False "1.prems" have "embed_loop gen wfail chat n count ?s1 = Inr s'" by simp
        from "1.IH" [OF True Inr False this] obtain t where
          t: "visits gen wfail chat n count ?s1 t"
             "count \<le> processed t \<and> s' = t \<or>
              processed t < count \<and> select_batch chat (store t) n = Inr [] \<and> s' = t\<lparr>fetched := fetched t @ [0]\<rparr>"
          by blast
        from True Inr False t(1) have "visits gen wfail chat n count s t"
          by (rule visits.iteration)
        with t(2) show ?thesis by blast
      qed
    qed
  qed
qed

lemma embed_loop_returns:
  "n \<le> bigint_max \<Longrightarrow> \<exists>s'. embed_loop gen wfail chat n count s = Inr s'"
proof (induction gen wfail chat n count s rule: embed_loop.induct)
  case (1 gen wfail chat n count s)
  show ?case
  proof (cases "processed s < count")
    case False
    then show ?thesis by simp
  next
    case True
    from "1.prems" obtain batch where b: "select_batch chat (store s) n = Inr batch"
      by (cases "n < 0") (simp_all add: select_batch_def sql_limit_def)
    show ?thesis
    proof (cases "batch = []")
      case True
      with \<open>processed s < count\<close> b show ?thesis by simp
    next
      case False
      from "1.IH" [OF True b False "1.prems"] True b False show ?thesis by simp
    qed
  qed
qed

lemmas example_defs = always_embeds_def provider_down_def never_rejects_def rejects_def
  text_message_def init_state_def select_batch_def sql_limit_def sql_offset_def bigint_max_def
  conditions_def chat_condition_def
  project_def has_content_def trimmed_content_def trim_def is_white_space_def

section \<open>The counters of the backfill\<close>

lemma issued_le_step:
  "processed s \<le> failed s + length (issued s) \<Longrightarrow>
   processed (process_batch gen wfail batch s)
     \<le> failed (process_batch gen wfail batch s) + length (issued (process_batch gen wfail batch s))"
proof (cases rule: process_batch_cases [where batch = batch and gen = gen and s = s])
  case no_valid
  assume "processed s \<le> failed s + length (issued s)"
  then show ?thesis by (simp add: process_batch_no_valid [OF no_valid])
next
  case throws
  assume "processed s \<le> failed s + length (issued s)"
  then show ?thesis by (simp add: process_batch_throws [where gen = gen and s = s, OF throws] caught_def)
next
  case (short embeddings)
  assume "processed s \<le> failed s + length (issued s)"
  then show ?thesis by (simp add: process_batch_short [where gen = gen and s = s, OF short] caught_def)
next
  case (answered embeddings)
  assume "processed s \<le> failed s + length (issued s)"
  then show ?thesis
    using answered(3) length_filter_le [of has_content batch]
    by (auto simp add: process_batch_answered [where gen = gen and s = s, OF answered refl refl] caught_def)
qed

lemma issued_eq_step:
  "\<forall>i. \<not> wfail (length (sent s)) i \<Longrightarrow> processed s = failed s + length (issued s) \<Longrightarrow>
   processed (process_batch gen wfail batch s)
     = failed (process_batch gen wfail batch s) + length (issued (process_batch gen wfail batch s))"
proof (cases rule: process_batch_cases [where batch = batch and gen = gen and s = s])
  case no_valid
  assume "processed s = failed s + length (issued s)"
  then show ?thesis by (simp add: process_batch_no_valid [OF no_valid])
next
  case throws
  assume "processed s = failed s + length (issued s)"
  then show ?thesis by (simp add: process_batch_throws [where gen = gen and s = s, OF throws] caught_def)
next
  case (short embeddings)
  assume "processed s = failed s + length (issued s)"
  then show ?thesis by (simp add: process_batch_short [where gen = gen and s = s, OF short] caught_def)
next
  case (answered embeddings)
  assume "\<forall>i. \<not> wfail (length (sent s)) i" "processed s = failed s + length (issued s)"
  then show ?thesis
    using answered(3)
    by (simp add: process_batch_answered [where gen = gen and s = s, OF answered refl refl]
        le_add_diff_inverse2 trans_le_add2)
qed

text \<open>
  Claim C1, as the code has it. At every loop head of a run \<open>processed\<close> is the sum of
  the lengths of the batches fetched so far, and any batch that follows adds exactly its
  length, whichever way the iteration goes. The number of update statements issued is at
  least \<open>processed - failed\<close>, and equal to it in every run in which no update is
  rejected: a batch with a rejected update is counted as failed as a whole, its other
  updates having been issued and applied.
\<close>

theorem counters_invariant:
  assumes "visits gen wfail chat n count (init_state table) s"
  shows "processed s = sum_list (fetched s)
       \<and> processed s \<le> failed s + length (issued s)
       \<and> ((\<forall>k i. \<not> wfail k i) \<longrightarrow> processed s = failed s + length (issued s))
       \<and> (\<forall>batch. processed (process_batch gen wfail batch s) = processed s + length batch)"
proof -
  let ?I = "\<lambda>s. processed s = sum_list (fetched s)
       \<and> processed s \<le> failed s + length (issued s)
       \<and> ((\<forall>k i. \<not> wfail k i) \<longrightarrow> processed s = failed s + length (issued s))"
  have "?I s"
  proof (rule visits_invariant [OF assms, where I = ?I])
    show "?I (init_state table)" by (simp add: init_state_def)
  next
    fix s :: loop_state and batch :: "batch_row list"
    assume I: "?I s"
    let ?s0 = "s\<lparr>fetched := fetched s @ [length batch]\<rparr>"
    let ?s' = "process_batch gen wfail batch ?s0"
    have f: "fetched ?s' = fetched s @ [length batch]"
      by (simp add: process_batch_def caught_def Let_def split: option.splits)
    have a: "processed ?s' = sum_list (fetched ?s')"
      using I by (simp add: f processed_process_batch)
    have b: "processed ?s' \<le> failed ?s' + length (issued ?s')"
      using I issued_le_step [of ?s0 gen wfail batch] by simp
    have c: "(\<forall>k i. \<not> wfail k i) \<longrightarrow> processed ?s' = failed ?s' + length (issued ?s')"
    proof
      assume nf: "\<forall>k i. \<not> wfail k i"
      then have "\<forall>i. \<not> wfail (length (sent ?s0)) i" by simp
      moreover from I nf have "processed ?s0 = failed ?s0 + length (issued ?s0)" by simp
      ultimately show "processed ?s' = failed ?s' + length (issued ?s')"
        by (rule issued_eq_step)
    qed
    from a b c show "?I ?s'" by blast
  qed
  then show ?thesis by (auto simp: processed_process_batch)
qed

text \<open>A run of one batch with a row of text and a row of white space.\<close>

theorem counters_invariant_witness:
  "visits always_embeds never_rejects None 100 2
     (init_state [text_message 1 1 (Some [104, 105]), text_message 2 1 (Some [32, 32])])
     (process_batch always_embeds never_rejects
        [\<lparr>row_id = 1, row_content = Some [104, 105]\<rparr>, \<lparr>row_id = 2, row_content = Some [32, 32]\<rparr>]
        ((init_state [text_message 1 1 (Some [104, 105]), text_message 2 1 (Some [32, 32])])
           \<lparr>fetched := [2]\<rparr>))
   \<and> processed (process_batch always_embeds never_rejects
        [\<lparr>row_id = 1, row_content = Some [104, 105]\<rparr>, \<lparr>row_id = 2, row_content = Some [32, 32]\<rparr>]
        ((init_state [text_message 1 1 (Some [104, 105]), text_message 2 1 (Some [32, 32])])
           \<lparr>fetched := [2]\<rparr>)) = 2
   \<and> failed (process_batch always_embeds never_rejects
        [\<lparr>row_id = 1, row_content = Some [104, 105]\<rparr>, \<lparr>row_id = 2, row_content = Some [32, 32]\<rparr>]
        ((init_state [text_message 1 1 (Some [104, 105]), text_message 2 1 (Some [32, 32])])
           \<lparr>fetched := [2]\<rparr>)) = 1
   \<and> issued (process_batch always_embeds never_rejects
        [\<lparr>row_id = 1, row_content = Some [104, 105]\<rparr>, \<lparr>row_id = 2, row_content = Some [32, 32]\<rparr>]
        ((init_state [text_message 1 1 (Some [104, 105]), text_message 2 1 (Some [32, 32])])
           \<lparr>fetched := [2]\<rparr>)) = [(1, [1, 0])]"
proof -
  let ?T = "[text_message 1 1 (Some [104, 105]), text_message 2 1 (Some [32, 32])]"
  let ?B = "[\<lparr>row_id = 1, row_content = Some [104, 105]\<rparr>, \<lparr>row_id = 2, row_content = Some [32, 32]\<rparr>]"
  let ?S = "process_batch always_embeds never_rejects ?B ((init_state ?T)\<lparr>fetched := [2]\<rparr>)"
  have sel: "select_batch None (store (init_state ?T)) 100 = Inr ?B"
    by (simp add: example_defs)
  have v: "visits always_embeds never_rejects None 100 2 (init_state ?T) ?S"
    using visits.iteration [OF _ sel _ visits.here, of 2 always_embeds never_rejects]
    by (simp add: init_state_def numeral_2_eq_2)
  have nf: "\<forall>k i. \<not> never_rejects k i" by (simp add: never_rejects_def)
  from counters_invariant [OF v] nf
  have "processed ?S = sum_list (fetched ?S) \<and> processed ?S = failed ?S + length (issued ?S)"
    by blast
  moreover have "fetched ?S = [2]" "issued ?S = [(1, [1, 0])]"
    by (simp_all add: process_batch_def Let_def example_defs)
  ultimately show ?thesis using v by simp
qed

text \<open>
  The equation of claim C1 with the updates issued as the successes fails when an update
  is rejected: two rows of text, the update of the second is rejected; both updates were
  issued and the first reached the table, and the counters say 2 processed, 2 failed.
\<close>

theorem counters_counterexample:
  "visits always_embeds (rejects 2) None 100 2
     (init_state [text_message 1 1 (Some [104, 105]), text_message 2 1 (Some [104, 111])])
     (process_batch always_embeds (rejects 2)
        [\<lparr>row_id = 1, row_content = Some [104, 105]\<rparr>, \<lparr>row_id = 2, row_content = Some [104, 111]\<rparr>]
        ((init_state [text_message 1 1 (Some [104, 105]), text_message 2 1 (Some [104, 111])])
           \<lparr>fetched := [2]\<rparr>))
   \<and> processed (process_batch always_embeds (rejects 2)
        [\<lparr>row_id = 1, row_content = Some [104, 105]\<rparr>, \<lparr>row_id = 2, row_content = Some [104, 111]\<rparr>]
        ((init_state [text_message 1 1 (Some [104, 105]), text_message 2 1 (Some [104, 111])])
           \<lparr>fetched := [2]\<rparr>)) = 2
   \<and> failed (process_batch always_embeds (rejects 2)
        [\<lparr>row_id = 1, row_content = Some [104, 105]\<rparr>, \<lparr>row_id = 2, row_content = Some [104, 111]\<rparr>]
        ((init_state [text_message 1 1 (Some [104, 105]), text_message 2 1 (Some [104, 111])])
           \<lparr>fetched := [2]\<rparr>)) = 2
   \<and> issued (process_batch always_embeds (rejects 2)
        [\<lparr>row_id = 1, row_content = Some [104, 105]\<rparr>, \<lparr>row_id = 2, row_content = Some [104, 111]\<rparr>]
        ((init_state [text_message 1 1 (Some [104, 105]), text_message 2 1 (Some [104, 111])])
           \<lparr>fetched := [2]\<rparr>)) = [(1, [1, 0]), (2, [1, 0])]
   \<and> map msg_embedding (store (process_batch always_embeds (rejects 2)
        [\<lparr>row_id = 1, row_content = Some [104, 105]\<rparr>, \<lparr>row_id = 2, row_content = Some [104, 111]\<rparr>]
        ((init_state [text_message 1 1 (Some [104, 105]), text_message 2 1 (Some [104, 111])])
           \<lparr>fetched := [2]\<rparr>))) = [Some [1, 0], None]"
proof -
  let ?T = "[text_message 1 1 (Some [104, 105]), text_message 2 1 (Some [104, 111])]"
  let ?B = "[\<lparr>row_id = 1, row_content = Some [104, 105]\<rparr>, \<lparr>row_id = 2, row_content = Some [104, 111]\<rparr>]"
  let ?S = "process_batch always_embeds (rejects 2) ?B ((init_state ?T)\<lparr>fetched := [2]\<rparr>)"
  have sel: "select_batch None (store (init_state ?T)) 100 = Inr ?B"
    by (simp add: example_defs)
  have v: "visits always_embeds (rejects 2) None 100 2 (init_state ?T) ?S"
    using visits.iteration [OF _ sel _ visits.here, of 2 always_embeds "rejects 2"]
    by (simp add: init_state_def numeral_2_eq_2)
  have "processed ?S = 2" "failed ?S = 2" "issued ?S = [(1, [1, 0]), (2, [1, 0])]"
    "map msg_embedding (store ?S) = [Some [1, 0], None]"
    by (simp_all add: process_batch_def Let_def example_defs caught_def apply_updates_def
        update_embedding_def)
  with v show ?thesis by simp
qed

section \<open>A batch whose provider call throws\<close>

text \<open>
  Claim C4. When the provider throws on a batch, the iteration adds the length of the
  batch to \<open>processed\<close> and to \<open>failed\<close>, logs the failure, leaves the table as it was,
  dispatches no update, and the loop goes on from that state.
\<close>

theorem provider_error_fails_whole_batch:
  assumes "processed s < count"
    and "select_batch chat (store s) n = Inr batch"
    and "filter has_content batch \<noteq> []"
    and "gen (length (sent s)) (map trimmed_content (filter has_content batch)) = None"
  shows "processed (process_batch gen wfail batch (s\<lparr>fetched := fetched s @ [length batch]\<rparr>))
           = processed s + length batch
       \<and> failed (process_batch gen wfail batch (s\<lparr>fetched := fetched s @ [length batch]\<rparr>))
           = failed s + length batch
       \<and> store (process_batch gen wfail batch (s\<lparr>fetched := fetched s @ [length batch]\<rparr>))
           = store s
       \<and> issued (process_batch gen wfail batch (s\<lparr>fetched := fetched s @ [length batch]\<rparr>))
           = issued s
       \<and> logged (process_batch gen wfail batch (s\<lparr>fetched := fetched s @ [length batch]\<rparr>))
           = logged s @ [WarnBatchFailed (length batch)]
       \<and> embed_loop gen wfail chat n count s
           = embed_loop gen wfail chat n count
               (process_batch gen wfail batch (s\<lparr>fetched := fetched s @ [length batch]\<rparr>))"
proof -
  let ?s0 = "s\<lparr>fetched := fetched s @ [length batch]\<rparr>"
  have "gen (length (sent ?s0)) (map trimmed_content (filter has_content batch)) = None"
    using assms(4) by simp
  from process_batch_throws [where gen = gen and s = ?s0, OF assms(3) this]
  have pb: "process_batch gen wfail batch ?s0 =
      caught (length batch) (?s0\<lparr>sent := sent ?s0 @ [map trimmed_content (filter has_content batch)]\<rparr>)" .
  from assms(3) have ne: "batch \<noteq> []" by auto
  have "embed_loop gen wfail chat n count s
          = embed_loop gen wfail chat n count (process_batch gen wfail batch ?s0)"
    using assms(1,2) ne by simp
  then show ?thesis by (simp add: pb caught_def)
qed

theorem provider_error_fails_whole_batch_witness:
  "processed (process_batch provider_down never_rejects
       [\<lparr>row_id = 1, row_content = Some [104, 105]\<rparr>, \<lparr>row_id = 2, row_content = None\<rparr>]
       ((init_state [text_message 1 1 (Some [104, 105]), text_message 2 1 None])\<lparr>fetched := [2]\<rparr>)) = 2
   \<and> failed (process_batch provider_down never_rejects
       [\<lparr>row_id = 1, row_content = Some [104, 105]\<rparr>, \<lparr>row_id = 2, row_content = None\<rparr>]
       ((init_state [text_message 1 1 (Some [104, 105]), text_message 2 1 None])\<lparr>fetched := [2]\<rparr>)) = 2
   \<and> store (process_batch provider_down never_rejects
       [\<lparr>row_id = 1, row_content = Some [104, 105]\<rparr>, \<lparr>row_id = 2, row_content = None\<rparr>]
       ((init_state [text_message 1 1 (Some [104, 105]), text_message 2 1 None])\<lparr>fetched := [2]\<rparr>))
       = [text_message 1 1 (Some [104, 105]), text_message 2 1 None]
   \<and> issued (process_batch provider_down never_rejects
       [\<lparr>row_id = 1, row_content = Some [104, 105]\<rparr>, \<lparr>row_id = 2, row_content = None\<rparr>]
       ((init_state [text_message 1 1 (Some [104, 105]), text_message 2 1 None])\<lparr>fetched := [2]\<rparr>)) = []
   \<and> logged (process_batch provider_down never_rejects
       [\<lparr>row_id = 1, row_content = Some [104, 105]\<rparr>, \<lparr>row_id = 2, row_content = None\<rparr>]
       ((init_state [text_message 1 1 (Some [104, 105]), text_message 2 1 None])\<lparr>fetched := [2]\<rparr>))
       = [WarnBatchFailed 2]"
proof -
  let ?T = "[text_message 1 1 (Some [104, 105]), text_message 2 1 None]"
  let ?B = "[\<lparr>row_id = 1, row_content = Some [104, 105]\<rparr>, \<lparr>row_id = 2, row_content = None\<rparr>]"
  have h1: "processed (init_state ?T) < 2" by (simp add: init_state_def)
  have h2: "select_batch None (store (init_state ?T)) 100 = Inr ?B"
    by (simp add: example_defs)
  have h3: "filter has_content ?B \<noteq> []" by (simp add: example_defs)
  have h4: "provider_down (length (sent (init_state ?T))) (map trimmed_content (filter has_content ?B)) = None"
    by (simp add: provider_down_def)
  let ?S = "process_batch provider_down never_rejects ?B
              ((init_state ?T)\<lparr>fetched := fetched (init_state ?T) @ [length ?B]\<rparr>)"
  from provider_error_fails_whole_batch [where gen = provider_down and wfail = never_rejects, OF h1 h2 h3 h4]
  have "processed ?S = processed (init_state ?T) + length ?B
      \<and> failed ?S = failed (init_state ?T) + length ?B
      \<and> store ?S = store (init_state ?T) \<and> issued ?S = issued (init_state ?T)
      \<and> logged ?S = logged (init_state ?T) @ [WarnBatchFailed (length ?B)]"
    by blast
  then show ?thesis by (simp add: init_state_def numeral_2_eq_2)
qed

section \<open>Rows without text\<close>

text \<open>
  Claim C5, as the code has it. A row whose content is absent, empty or white space only
  does not pass the filter; the texts of the one call the provider may get in an
  iteration are the trimmed contents of the rows that pass, none of them empty; a batch
  of such rows alone is logged as skipped, without a call of the provider and without a
  change of the table; the \<open>catch\<close> block runs exactly when the provider throws or
  answers short, or an update of a row with text is rejected. When it does not run, the
  rows without text are the \<open>skipped\<close> of the progress line and what \<open>failed\<close> grows by;
  when it runs, they are counted in \<open>failed\<close> with the whole batch, under the warning of
  the failure.
\<close>

theorem blank_rows_are_skipped:
  "(\<forall>r \<in> set batch. blank (row_content r) \<longrightarrow> r \<notin> set (filter has_content batch))
   \<and> (\<forall>r \<in> set (filter has_content batch).
         \<exists>c. row_content r = Some c \<and> \<not> blank (Some c) \<and> trimmed_content r = trim c \<and> trim c \<noteq> []
             \<and> \<not> is_white_space (hd (trim c)) \<and> \<not> is_white_space (last (trim c)))
   \<and> (sent (process_batch gen wfail batch s) = sent s
        \<or> sent (process_batch gen wfail batch s)
            = sent s @ [map trimmed_content (filter has_content batch)])
   \<and> (filter has_content batch = [] \<longrightarrow>
         process_batch gen wfail batch s
           = s\<lparr>processed := processed s + length batch, failed := failed s + length batch,
               logged := logged s @ [WarnNoValidContent]\<rparr>)
   \<and> (logged (process_batch gen wfail batch s) = logged s @ [WarnBatchFailed (length batch)] \<longrightarrow>
         filter has_content batch \<noteq> [] \<and>
         (case gen (length (sent s)) (map trimmed_content (filter has_content batch)) of
            None \<Rightarrow> True
          | Some embeddings \<Rightarrow>
              length embeddings < length (filter has_content batch)
              \<or> (\<exists>r \<in> set (filter has_content batch). wfail (length (sent s)) (row_id r))))
   \<and> (logged (process_batch gen wfail batch s) \<noteq> logged s @ [WarnBatchFailed (length batch)] \<longrightarrow>
         failed (process_batch gen wfail batch s)
           = failed s + length (filter (\<lambda>r. blank (row_content r)) batch)
         \<and> logged (process_batch gen wfail batch s)
           = logged s @ [if filter has_content batch = [] then WarnNoValidContent
                         else DebugProgress (processed s + length batch)
                                (length (filter (\<lambda>r. blank (row_content r)) batch))])
   \<and> (filter has_content batch \<noteq> [] \<and>
        (case gen (length (sent s)) (map trimmed_content (filter has_content batch)) of
            None \<Rightarrow> True
          | Some embeddings \<Rightarrow>
              length embeddings < length (filter has_content batch)
              \<or> (\<exists>r \<in> set (filter has_content batch). wfail (length (sent s)) (row_id r))) \<longrightarrow>
         failed (process_batch gen wfail batch s) = failed s + length batch
         \<and> logged (process_batch gen wfail batch s) = logged s @ [WarnBatchFailed (length batch)])"
proof -
  let ?V = "filter has_content batch"
  let ?s' = "process_batch gen wfail batch s"
  have skipped: "length batch - length ?V = length (filter (\<lambda>r. blank (row_content r)) batch)"
  proof -
    have "length ?V + length (filter (\<lambda>r. \<not> has_content r) batch) = length batch"
      by (rule sum_length_filter_compl)
    then show ?thesis by (simp add: has_content_iff)
  qed
  have all_blank: "?V = [] \<Longrightarrow> length (filter (\<lambda>r. blank (row_content r)) batch) = length batch"
    using skipped by simp
  have a: "\<forall>r \<in> set batch. blank (row_content r) \<longrightarrow> r \<notin> set ?V"
    by (simp add: has_content_iff)
  have b: "\<forall>r \<in> set ?V.
         \<exists>c. row_content r = Some c \<and> \<not> blank (Some c) \<and> trimmed_content r = trim c \<and> trim c \<noteq> []
             \<and> \<not> is_white_space (hd (trim c)) \<and> \<not> is_white_space (last (trim c))"
  proof
    fix r assume "r \<in> set ?V"
    then have hc: "has_content r" by simp
    then obtain c where c: "row_content r = Some c" "trim c \<noteq> []"
      by (auto simp: has_content_def split: option.splits)
    from hc c(1) have "\<not> blank (Some c)" by (simp add: has_content_iff)
    with c trim_no_white_space_ends [OF c(2)]
    show "\<exists>c. row_content r = Some c \<and> \<not> blank (Some c) \<and> trimmed_content r = trim c \<and> trim c \<noteq> []
             \<and> \<not> is_white_space (hd (trim c)) \<and> \<not> is_white_space (last (trim c))"
      by (simp add: trimmed_content_def)
  qed
  have d: "?V = [] \<longrightarrow> ?s' = s\<lparr>processed := processed s + length batch,
        failed := failed s + length batch, logged := logged s @ [WarnNoValidContent]\<rparr>"
    by (simp add: process_batch_no_valid)
  have rest:
    "(sent ?s' = sent s \<or> sent ?s' = sent s @ [map trimmed_content ?V])
   \<and> (logged ?s' = logged s @ [WarnBatchFailed (length batch)] \<longrightarrow>
         ?V \<noteq> [] \<and>
         (case gen (length (sent s)) (map trimmed_content ?V) of
            None \<Rightarrow> True
          | Some embeddings \<Rightarrow>
              length embeddings < length ?V
              \<or> (\<exists>r \<in> set ?V. wfail (length (sent s)) (row_id r))))
   \<and> (logged ?s' \<noteq> logged s @ [WarnBatchFailed (length batch)] \<longrightarrow>
         failed ?s' = failed s + length (filter (\<lambda>r. blank (row_content r)) batch)
         \<and> logged ?s'
           = logged s @ [if ?V = [] then WarnNoValidContent
                         else DebugProgress (processed s + length batch)
                                (length (filter (\<lambda>r. blank (row_content r)) batch))])
   \<and> (?V \<noteq> [] \<and>
        (case gen (length (sent s)) (map trimmed_content ?V) of
            None \<Rightarrow> True
          | Some embeddings \<Rightarrow>
              length embeddings < length ?V
              \<or> (\<exists>r \<in> set ?V. wfail (length (sent s)) (row_id r))) \<longrightarrow>
         failed ?s' = failed s + length batch
         \<and> logged ?s' = logged s @ [WarnBatchFailed (length batch)])"
  proof (cases rule: process_batch_cases [where batch = batch and gen = gen and s = s])
    case no_valid
    then show ?thesis by (simp add: process_batch_no_valid all_blank)
  next
    case throws
    then show ?thesis
      by (simp add: process_batch_throws [where gen = gen and s = s] caught_def)
  next
    case (short embeddings)
    then show ?thesis
      by (simp add: process_batch_short [where gen = gen and s = s] caught_def)
  next
    case (answered embeddings)
    let ?ws = "zip (map row_id ?V) embeddings"
    have fst_ws: "fst ` set ?ws = row_id ` set ?V"
    proof -
      have "map fst ?ws = map row_id ?V" using answered(3) by (simp add: map_fst_zip_take)
      then have "set (map fst ?ws) = set (map row_id ?V)" by simp
      then show ?thesis by simp
    qed
    have ex: "(\<exists>w \<in> set ?ws. wfail (length (sent s)) (fst w))
          \<longleftrightarrow> (\<exists>r \<in> set ?V. wfail (length (sent s)) (row_id r))"
    proof -
      have "(\<exists>w \<in> set ?ws. wfail (length (sent s)) (fst w))
          \<longleftrightarrow> (\<exists>i \<in> fst ` set ?ws. wfail (length (sent s)) i)" by blast
      also have "\<dots> \<longleftrightarrow> (\<exists>r \<in> set ?V. wfail (length (sent s)) (row_id r))"
        unfolding fst_ws by blast
      finally show ?thesis .
    qed
    show ?thesis
      using answered
      by (simp add: process_batch_answered [where gen = gen and s = s, OF answered refl refl]
          caught_def skipped ex del: set_filter)
  qed
  from a b d rest show ?thesis by blast
qed

theorem blank_rows_are_skipped_witness:
  "filter has_content
     [\<lparr>row_id = 1, row_content = Some []\<rparr>, \<lparr>row_id = 2, row_content = Some [32, 32]\<rparr>,
      \<lparr>row_id = 3, row_content = Some [32, 104, 105, 10]\<rparr>]
     = [\<lparr>row_id = 3, row_content = Some [32, 104, 105, 10]\<rparr>]
   \<and> sent (process_batch always_embeds never_rejects
       [\<lparr>row_id = 1, row_content = Some []\<rparr>, \<lparr>row_id = 2, row_content = Some [32, 32]\<rparr>,
        \<lparr>row_id = 3, row_content = Some [32, 104, 105, 10]\<rparr>] (init_state [])) = [[[104, 105]]]
   \<and> logged (process_batch always_embeds never_rejects
       [\<lparr>row_id = 1, row_content = Some []\<rparr>, \<lparr>row_id = 2, row_content = Some [32, 32]\<rparr>,
        \<lparr>row_id = 3, row_content = Some [32, 104, 105, 10]\<rparr>] (init_state [])) = [DebugProgress 3 2]
   \<and> failed (process_batch always_embeds never_rejects
       [\<lparr>row_id = 1, row_content = Some []\<rparr>, \<lparr>row_id = 2, row_content = Some [32, 32]\<rparr>,
        \<lparr>row_id = 3, row_content = Some [32, 104, 105, 10]\<rparr>] (init_state [])) = 2
   \<and> failed (process_batch always_embeds (rejects 3)
       [\<lparr>row_id = 1, row_content = Some []\<rparr>, \<lparr>row_id = 2, row_content = Some [32, 32]\<rparr>,
        \<lparr>row_id = 3, row_content = Some [32, 104, 105, 10]\<rparr>] (init_state [])) = 3
   \<and> logged (process_batch always_embeds (rejects 3)
       [\<lparr>row_id = 1, row_content = Some []\<rparr>, \<lparr>row_id = 2, row_content = Some [32, 32]\<rparr>,
        \<lparr>row_id = 3, row_content = Some [32, 104, 105, 10]\<rparr>] (init_state [])) = [WarnBatchFailed 3]"
proof -
  let ?B = "[\<lparr>row_id = 1, row_content = Some []\<rparr>, \<lparr>row_id = 2, row_content = Some [32, 32]\<rparr>,
        \<lparr>row_id = 3, row_content = Some [32, 104, 105, 10]\<rparr>]"
  let ?S = "process_batch always_embeds never_rejects ?B (init_state [])"
  have v: "filter has_content ?B = [\<lparr>row_id = 3, row_content = Some [32, 104, 105, 10]\<rparr>]"
    by (simp add: example_defs)
  have l: "logged ?S = [DebugProgress 3 2]"
    by (simp add: process_batch_def Let_def example_defs)
  have s: "sent ?S = [[[104, 105]]]"
    by (simp add: process_batch_def Let_def example_defs)
  from l have hyp: "logged ?S \<noteq> logged (init_state []) @ [WarnBatchFailed (length ?B)]"
    by (simp add: init_state_def)
  from blank_rows_are_skipped [of ?B always_embeds never_rejects "init_state []"] hyp
  have "failed ?S = failed (init_state []) + length (filter (\<lambda>r. blank (row_content r)) ?B)"
    by blast
  then have f: "failed ?S = 2"
    by (simp add: init_state_def blank_def is_white_space_def)
  let ?R = "process_batch always_embeds (rejects 3) ?B (init_state [])"
  have rejected: "filter has_content ?B \<noteq> [] \<and>
        (case always_embeds (length (sent (init_state [])))
                (map trimmed_content (filter has_content ?B)) of
            None \<Rightarrow> True
          | Some embeddings \<Rightarrow>
              length embeddings < length (filter has_content ?B)
              \<or> (\<exists>r \<in> set (filter has_content ?B).
                    rejects 3 (length (sent (init_state []))) (row_id r)))"
    by (simp add: example_defs)
  from blank_rows_are_skipped [of ?B always_embeds "rejects 3" "init_state []"] rejected
  have "failed ?R = failed (init_state []) + length ?B
      \<and> logged ?R = logged (init_state []) @ [WarnBatchFailed (length ?B)]"
    by blast
  then have r: "failed ?R = 3 \<and> logged ?R = [WarnBatchFailed 3]"
    by (simp add: init_state_def)
  from v l s f r show ?thesis by simp
qed

text \<open>
  A message with text and a message of two spaces, the provider down: the row without
  text is not sent, and it is counted in \<open>failed\<close> under the warning of the failure, as
  the row with text is; no line reports it as skipped.
\<close>

theorem blank_rows_counterexample:
  "process_batch provider_down never_rejects
     [\<lparr>row_id = 1, row_content = Some [104, 105]\<rparr>, \<lparr>row_id = 2, row_content = Some [32, 32]\<rparr>]
     (init_state [])
   = \<lparr>store = [], processed = 2, failed = 2, fetched = [], sent = [[[104, 105]]],
      issued = [], logged = [WarnBatchFailed 2]\<rparr>"
  by (simp add: process_batch_def caught_def Let_def example_defs)

lemma written_Nil [simp]: "written wfail k [] i = None"
  by (simp add: written_def)

lemma written_snoc:
  "written wfail k (ws @ [(i, v)]) j = (if \<not> wfail k i \<and> j = i then Some v else written wfail k ws j)"
  by (simp add: written_def)

lemma apply_updates_eq:
  "apply_updates wfail k table ws =
     map (\<lambda>m. case written wfail k ws (msg_id m) of None \<Rightarrow> m | Some v \<Rightarrow> m\<lparr>msg_embedding := Some v\<rparr>) table"
proof (induction ws rule: rev_induct)
  case Nil
  then show ?case by (simp add: apply_updates_def)
next
  case (snoc w ws)
  obtain i v where w: "w = (i, v)" by (cases w)
  have "apply_updates wfail k table (ws @ [w]) =
      (if wfail k i then apply_updates wfail k table ws
       else update_embedding (apply_updates wfail k table ws) i v)"
    by (simp add: apply_updates_def w)
  then show ?case
    unfolding snoc.IH w
    by (auto simp: update_embedding_def written_snoc split: option.splits)
qed

lemma written_Some_iff:
  "(\<exists>v. written wfail k ws i = Some v) \<longleftrightarrow> (i \<in> fst ` set ws \<and> \<not> wfail k i)"
proof -
  have "(\<exists>v. written wfail k ws i = Some v) \<longleftrightarrow> i \<in> fst ` set (rev (filter (\<lambda>w. \<not> wfail k (fst w)) ws))"
    unfolding written_def by (metis map_of_eq_None_iff not_None_eq)
  then show ?thesis by auto
qed

lemma written_in_set: "written wfail k ws i = Some v \<Longrightarrow> (i, v) \<in> set ws"
  unfolding written_def by (auto dest!: map_of_SomeD)

section \<open>The update of an embedding\<close>

lemma store_process_batch_answered:
  assumes "filter has_content batch \<noteq> []"
    and "gen (length (sent s)) (map trimmed_content (filter has_content batch)) = Some embeddings"
    and "\<not> length embeddings < length (filter has_content batch)"
  shows "store (process_batch gen wfail batch s)
           = apply_updates wfail (length (sent s)) (store s)
               (zip (map row_id (filter has_content batch)) embeddings)"
    and "issued (process_batch gen wfail batch s)
           = issued s @ zip (map row_id (filter has_content batch)) embeddings"
  by (simp_all add: process_batch_answered [where gen = gen and s = s, OF assms refl refl] caught_def)

text \<open>
  Claim C9. In an iteration whose provider call answers, an update is dispatched for
  the id of every row of the valid batch, and the table changes as follows: a row whose
  id is the id of a row of the valid batch, and whose update is not rejected, gets the
  vector the provider gave for such a row, whatever its chat is; every other row stays as
  it is; and no column but the embedding changes in any row.
\<close>

theorem embedding_update_matches_id_only:
  assumes "gen (length (sent s)) (map trimmed_content (filter has_content batch)) = Some embeddings"
    and "length (filter has_content batch) \<le> length embeddings"
  shows "map fst (issued (process_batch gen wfail batch s))
           = map fst (issued s) @ map row_id (filter has_content batch)
       \<and> length (store (process_batch gen wfail batch s)) = length (store s)
       \<and> (\<forall>j < length (store s).
             store (process_batch gen wfail batch s) ! j
               = (store s ! j)\<lparr>msg_embedding :=
                    msg_embedding (store (process_batch gen wfail batch s) ! j)\<rparr>
             \<and> (if msg_id (store s ! j) \<in> row_id ` set (filter has_content batch)
                     \<and> \<not> wfail (length (sent s)) (msg_id (store s ! j))
                 then \<exists>idx < length (filter has_content batch).
                        row_id (filter has_content batch ! idx) = msg_id (store s ! j)
                        \<and> msg_embedding (store (process_batch gen wfail batch s) ! j)
                            = Some (embeddings ! idx)
                 else store (process_batch gen wfail batch s) ! j = store s ! j))"
proof (cases "filter has_content batch = []")
  case True
  then show ?thesis by (simp add: process_batch_no_valid)
next
  case False
  let ?V = "filter has_content batch"
  let ?k = "length (sent s)"
  let ?ws = "zip (map row_id ?V) embeddings"
  let ?s' = "process_batch gen wfail batch s"
  from assms(2) have nshort: "\<not> length embeddings < length ?V" by simp
  note st = store_process_batch_answered [where gen = gen and s = s, OF False assms(1) nshort]
  have fst_ws: "map fst ?ws = map row_id ?V"
    using assms(2) by (simp add: map_fst_zip_take)
  have a: "map fst (issued ?s') = map fst (issued s) @ map row_id ?V"
    by (simp add: st(2) fst_ws)
  have store': "store ?s' = map (\<lambda>m. case written wfail ?k ?ws (msg_id m) of None \<Rightarrow> m
                               | Some v \<Rightarrow> m\<lparr>msg_embedding := Some v\<rparr>) (store s)"
    by (simp add: st(1) apply_updates_eq)
  have b: "length (store ?s') = length (store s)"
    by (simp add: store')
  have c: "\<forall>j < length (store s).
             store ?s' ! j = (store s ! j)\<lparr>msg_embedding := msg_embedding (store ?s' ! j)\<rparr>
             \<and> (if msg_id (store s ! j) \<in> row_id ` set ?V \<and> \<not> wfail ?k (msg_id (store s ! j))
                 then \<exists>idx < length ?V. row_id (?V ! idx) = msg_id (store s ! j)
                        \<and> msg_embedding (store ?s' ! j) = Some (embeddings ! idx)
                 else store ?s' ! j = store s ! j)"
  proof (intro allI impI)
    fix j assume j: "j < length (store s)"
    let ?m = "store s ! j"
    have m': "store ?s' ! j = (case written wfail ?k ?ws (msg_id ?m) of None \<Rightarrow> ?m
                               | Some v \<Rightarrow> ?m\<lparr>msg_embedding := Some v\<rparr>)"
      using j by (simp add: store')
    have set_ws: "fst ` set ?ws = row_id ` set ?V"
    proof -
      have "set (map fst ?ws) = set (map row_id ?V)" by (simp only: fst_ws)
      then show ?thesis by simp
    qed
    show "store ?s' ! j = ?m\<lparr>msg_embedding := msg_embedding (store ?s' ! j)\<rparr>
        \<and> (if msg_id ?m \<in> row_id ` set ?V \<and> \<not> wfail ?k (msg_id ?m)
            then \<exists>idx < length ?V. row_id (?V ! idx) = msg_id ?m
                   \<and> msg_embedding (store ?s' ! j) = Some (embeddings ! idx)
            else store ?s' ! j = ?m)"
    proof (cases "written wfail ?k ?ws (msg_id ?m)")
      case None
      with written_Some_iff [of wfail ?k ?ws "msg_id ?m"]
      have "\<not> (msg_id ?m \<in> row_id ` set ?V \<and> \<not> wfail ?k (msg_id ?m))"
        by (simp add: set_ws)
      with None m' show ?thesis by auto
    next
      case (Some v)
      with written_Some_iff [of wfail ?k ?ws "msg_id ?m"]
      have cond: "msg_id ?m \<in> row_id ` set ?V \<and> \<not> wfail ?k (msg_id ?m)"
        by (simp add: set_ws)
      from written_in_set [OF Some] obtain idx where
        idx: "idx < length ?V" "row_id (?V ! idx) = msg_id ?m" "embeddings ! idx = v"
        by (auto simp: in_set_zip)
      from Some m' have "store ?s' ! j = ?m\<lparr>msg_embedding := Some v\<rparr>" by simp
      with cond idx show ?thesis by auto
    qed
  qed
  from a b c show ?thesis by blast
qed

text \<open>
  A run restricted to chat 1: the row of chat 2 that has the id of the batch's row gets
  the embedding as well; the row with another id does not.
\<close>

theorem embedding_update_matches_id_only_witness:
  "select_batch (Some (Num 1))
      [text_message 7 1 (Some [104, 105]), text_message 7 2 (Some [98, 121, 101]),
       text_message 8 2 (Some [111, 107])] 100
     = Inr [\<lparr>row_id = 7, row_content = Some [104, 105]\<rparr>]
   \<and> store (process_batch always_embeds never_rejects
        [\<lparr>row_id = 7, row_content = Some [104, 105]\<rparr>]
        (init_state [text_message 7 1 (Some [104, 105]), text_message 7 2 (Some [98, 121, 101]),
                     text_message 8 2 (Some [111, 107])])) ! 1
     = (text_message 7 2 (Some [98, 121, 101]))\<lparr>msg_embedding := Some [1, 0]\<rparr>
   \<and> store (process_batch always_embeds never_rejects
        [\<lparr>row_id = 7, row_content = Some [104, 105]\<rparr>]
        (init_state [text_message 7 1 (Some [104, 105]), text_message 7 2 (Some [98, 121, 101]),
                     text_message 8 2 (Some [111, 107])])) ! 2
     = text_message 8 2 (Some [111, 107])"
proof -
  let ?T = "[text_message 7 1 (Some [104, 105]), text_message 7 2 (Some [98, 121, 101]),
             text_message 8 2 (Some [111, 107])]"
  let ?B = "[\<lparr>row_id = 7, row_content = Some [104, 105]\<rparr>]"
  let ?S = "process_batch always_embeds never_rejects ?B (init_state ?T)"
  have sel: "select_batch (Some (Num 1)) ?T 100 = Inr ?B"
    by (simp add: example_defs)
  have V: "filter has_content ?B = ?B" by (simp add: example_defs)
  have h1: "always_embeds (length (sent (init_state ?T))) (map trimmed_content (filter has_content ?B))
              = Some [[1, 0]]"
    by (simp add: example_defs)
  have h2: "length (filter has_content ?B) \<le> length [[1, 0 :: real]]" by (simp add: V)
  from embedding_update_matches_id_only [where gen = always_embeds and wfail = never_rejects, OF h1 h2]
  have rows: "\<forall>j < length (store (init_state ?T)).
         store ?S ! j = (store (init_state ?T) ! j)\<lparr>msg_embedding := msg_embedding (store ?S ! j)\<rparr>
         \<and> (if msg_id (store (init_state ?T) ! j) \<in> row_id ` set (filter has_content ?B)
                 \<and> \<not> never_rejects (length (sent (init_state ?T))) (msg_id (store (init_state ?T) ! j))
             then \<exists>idx < length (filter has_content ?B).
                    row_id (filter has_content ?B ! idx) = msg_id (store (init_state ?T) ! j)
                    \<and> msg_embedding (store ?S ! j) = Some ([[1, 0]] ! idx)
             else store ?S ! j = store (init_state ?T) ! j)"
    by blast
  have T1: "store (init_state ?T) ! 1 = text_message 7 2 (Some [98, 121, 101])"
    and T2: "store (init_state ?T) ! 2 = text_message 8 2 (Some [111, 107])"
    and len: "length (store (init_state ?T)) = 3"
    by (simp_all add: init_state_def)
  have c1: "msg_id (text_message 7 2 (Some [98, 121, 101])) \<in> row_id ` set ?B
            \<and> \<not> never_rejects (length (sent (init_state ?T))) (msg_id (text_message 7 2 (Some [98, 121, 101])))"
    and c2: "\<not> (msg_id (text_message 8 2 (Some [111, 107])) \<in> row_id ` set ?B
            \<and> \<not> never_rejects (length (sent (init_state ?T))) (msg_id (text_message 8 2 (Some [111, 107]))))"
    by (simp_all add: text_message_def never_rejects_def)
  have "(1::nat) < length (store (init_state ?T))" by (simp add: len)
  from rows [rule_format, OF this]
  have "store ?S ! 1 = (text_message 7 2 (Some [98, 121, 101]))\<lparr>msg_embedding := msg_embedding (store ?S ! 1)\<rparr>
         \<and> (\<exists>idx < length ?B. msg_embedding (store ?S ! 1) = Some ([[1, 0]] ! idx))"
    unfolding V T1 using c1 by auto
  then have r1: "store ?S ! 1 = (text_message 7 2 (Some [98, 121, 101]))\<lparr>msg_embedding := Some [1, 0]\<rparr>"
    by auto
  have "(2::nat) < length (store (init_state ?T))" by (simp add: len)
  from rows [rule_format, OF this]
  have r2: "store ?S ! 2 = text_message 8 2 (Some [111, 107])"
    unfolding V T2 using c2 by (simp only: if_False)
  from sel r1 r2 show ?thesis by (simp only: simp_thms)
qed

section \<open>A chat id that is falsy\<close>

lemma chat_condition_falsy:
  "chat_condition (Some (Num 0)) = chat_condition None"
  "chat_condition (Some NaN) = chat_condition None"
  by (simp_all add: chat_condition_def fun_eq_iff)

lemma conditions_falsy:
  "conditions (Some (Num 0)) = conditions None"
  "conditions (Some NaN) = conditions None"
  by (simp_all add: conditions_def fun_eq_iff chat_condition_falsy)

lemma embed_loop_conditions_cong:
  "conditions chat = conditions chat' \<Longrightarrow>
   embed_loop gen wfail chat n count s = embed_loop gen wfail chat' n count s"
proof (induction gen wfail chat n count s rule: embed_loop.induct)
  case (1 gen wfail chat n count s)
  have sel: "select_batch chat (store s) n = select_batch chat' (store s) n"
    using "1.prems" by (simp add: select_batch_def)
  have L: "embed_loop gen wfail chat n count s =
     (if processed s < count then
        (case select_batch chat (store s) n of
           Inl e \<Rightarrow> Inl e
         | Inr batch \<Rightarrow>
             if batch = [] then Inr (s\<lparr>fetched := fetched s @ [0]\<rparr>)
             else embed_loop gen wfail chat n count
                    (process_batch gen wfail batch (s\<lparr>fetched := fetched s @ [length batch]\<rparr>)))
      else Inr s)"
    by (rule embed_loop.simps)
  have R: "embed_loop gen wfail chat' n count s =
     (if processed s < count then
        (case select_batch chat (store s) n of
           Inl e \<Rightarrow> Inl e
         | Inr batch \<Rightarrow>
             if batch = [] then Inr (s\<lparr>fetched := fetched s @ [0]\<rparr>)
             else embed_loop gen wfail chat' n count
                    (process_batch gen wfail batch (s\<lparr>fetched := fetched s @ [length batch]\<rparr>)))
      else Inr s)"
    unfolding sel by (rule embed_loop.simps)
  show ?case
  proof (cases "processed s < count")
    case False
    then show ?thesis unfolding L R by simp
  next
    case True
    show ?thesis
    proof (cases "select_batch chat (store s) n")
      case (Inl e)
      then show ?thesis unfolding L R by simp
    next
      case (Inr batch)
      show ?thesis
      proof (cases "batch = []")
        case True
        with Inr show ?thesis unfolding L R by simp
      next
        case False
        from "1.IH" [OF True Inr False "1.prems"] True Inr False
        show ?thesis unfolding L R by simp
      qed
    qed
  qed
qed

lemma embed_chat_cong:
  assumes "conditions (chatId (resolve_options cli options)) = conditions (chatId (resolve_options cli options'))"
    and "batchSize (resolve_options cli options) = batchSize (resolve_options cli options')"
  shows "embed gen wfail cli options table = embed gen wfail cli options' table"
proof -
  have "count_eligible (chatId (resolve_options cli options)) table
      = count_eligible (chatId (resolve_options cli options')) table"
    using assms(1) by (simp add: count_eligible_def)
  with assms(2) embed_loop_conditions_cong [OF assms(1)] show ?thesis
    by (simp add: embed_def Let_def)
qed

lemma embed_cli_chat_cong:
  assumes "conditions (chatId (resolve_options cli options)) = conditions (chatId (resolve_options cli' options))"
    and "batchSize (resolve_options cli options) = batchSize (resolve_options cli' options)"
  shows "embed gen wfail cli options table = embed gen wfail cli' options table"
proof -
  have "count_eligible (chatId (resolve_options cli options)) table
      = count_eligible (chatId (resolve_options cli' options)) table"
    using assms(1) by (simp add: count_eligible_def)
  with assms(2) embed_loop_conditions_cong [OF assms(1)] show ?thesis
    by (simp add: embed_def Let_def)
qed

text \<open>
  Claim C10. A chat id of 0 (or \<open>NaN\<close>) given to \<open>findSimilarMessages\<close>, to \<open>embed\<close> in
  its options or on the command line, gives what the absent chat id gives: no condition
  on the chat is added.
\<close>

theorem falsy_chat_id_is_no_filter:
  "findSimilarMessages cosine_distance table embedding (options\<lparr>search_chatId := Some (Num 0)\<rparr>)
     = findSimilarMessages cosine_distance table embedding (options\<lparr>search_chatId := None\<rparr>)
   \<and> findSimilarMessages cosine_distance table embedding (options\<lparr>search_chatId := Some NaN\<rparr>)
     = findSimilarMessages cosine_distance table embedding (options\<lparr>search_chatId := None\<rparr>)
   \<and> embed gen wfail cli (eopts\<lparr>chatId := Some (Num 0)\<rparr>) table
     = embed gen wfail cli (eopts\<lparr>chatId := None\<rparr>) table
   \<and> embed gen wfail cli (eopts\<lparr>chatId := Some NaN\<rparr>) table
     = embed gen wfail cli (eopts\<lparr>chatId := None\<rparr>) table
   \<and> embed gen wfail (cli\<lparr>cli_chatId := Some (Num 0)\<rparr>) eopts table
     = embed gen wfail (cli\<lparr>cli_chatId := None\<rparr>) eopts table"
proof -
  have s: "search_conditions (options\<lparr>search_chatId := Some (Num 0)\<rparr>)
             = search_conditions (options\<lparr>search_chatId := None\<rparr>)"
    "search_conditions (options\<lparr>search_chatId := Some NaN\<rparr>)
             = search_conditions (options\<lparr>search_chatId := None\<rparr>)"
    by (simp_all add: search_conditions_def fun_eq_iff chat_condition_falsy)
  have f: "findSimilarMessages cosine_distance table embedding (options\<lparr>search_chatId := Some (Num 0)\<rparr>)
     = findSimilarMessages cosine_distance table embedding (options\<lparr>search_chatId := None\<rparr>)"
    "findSimilarMessages cosine_distance table embedding (options\<lparr>search_chatId := Some NaN\<rparr>)
     = findSimilarMessages cosine_distance table embedding (options\<lparr>search_chatId := None\<rparr>)"
    by (simp_all add: findSimilarMessages_def similar_ordered_def Let_def s)
  have e1: "embed gen wfail cli (eopts\<lparr>chatId := Some (Num 0)\<rparr>) table
     = embed gen wfail cli (eopts\<lparr>chatId := None\<rparr>) table"
    by (rule embed_chat_cong) (simp_all add: resolve_options_def conditions_falsy)
  have e2: "embed gen wfail cli (eopts\<lparr>chatId := Some NaN\<rparr>) table
     = embed gen wfail cli (eopts\<lparr>chatId := None\<rparr>) table"
    by (rule embed_chat_cong) (simp_all add: resolve_options_def conditions_falsy)
  have e3: "embed gen wfail (cli\<lparr>cli_chatId := Some (Num 0)\<rparr>) eopts table
     = embed gen wfail (cli\<lparr>cli_chatId := None\<rparr>) eopts table"
    by (rule embed_cli_chat_cong) (simp_all add: resolve_options_def conditions_falsy)
  from f e1 e2 e3 show ?thesis by (simp only: simp_thms)
qed

text \<open>A search with the chat id 0 returns the row of chat 5.\<close>

theorem falsy_chat_id_is_no_filter_witness:
  "findSimilarMessages unit_cosine_distance
      [(text_message 1 5 (Some [104, 105]))\<lparr>msg_embedding := Some [1, 0]\<rparr>] [1, 0]
      (no_filter\<lparr>search_chatId := Some (Num 0)\<rparr>)
     = Inr [\<lparr>sim_id = 1, sim_chatId = 5, sim_type = Text, sim_content = Some [104, 105],
              sim_createdAt = 0, sim_fromId = None, similarity = 1\<rparr>]"
proof -
  have "findSimilarMessages unit_cosine_distance
      [(text_message 1 5 (Some [104, 105]))\<lparr>msg_embedding := Some [1, 0]\<rparr>] [1, 0]
      (no_filter\<lparr>search_chatId := None\<rparr>)
     = Inr [\<lparr>sim_id = 1, sim_chatId = 5, sim_type = Text, sim_content = Some [104, 105],
              sim_createdAt = 0, sim_fromId = None, similarity = 1\<rparr>]"
    by (simp add: findSimilarMessages_def similar_ordered_def Let_def search_conditions_def
        chat_condition_def no_filter_def text_message_def select_similar_def List.map_filter_simps
        unit_cosine_distance_def sql_limit_def sql_offset_def bigint_max_def)
  with falsy_chat_id_is_no_filter [of unit_cosine_distance
      "[(text_message 1 5 (Some [104, 105]))\<lparr>msg_embedding := Some [1, 0]\<rparr>]" "[1, 0]" no_filter]
  show ?thesis by simp
qed

section \<open>Similarity search\<close>

lemma select_similar_Some:
  "select_similar cosine_distance embedding m = Some r \<longleftrightarrow>
   (\<exists>e. msg_embedding m = Some e \<and>
        r = \<lparr>sim_id = msg_id m, sim_chatId = msg_chatId m, sim_type = msg_type m,
             sim_content = msg_content m, sim_createdAt = msg_createdAt m,
             sim_fromId = msg_fromId m, similarity = 1 - cosine_distance e embedding\<rparr>)"
  by (cases "msg_embedding m") (auto simp: select_similar_def)

lemma set_map_filter: "set (List.map_filter f xs) = {y. \<exists>x \<in> set xs. f x = Some y}"
  by (induction xs) (auto simp: List.map_filter_simps split: option.splits)

lemma set_similar_ordered:
  "set (similar_ordered cosine_distance table embedding options) =
   {r. \<exists>m \<in> set table. search_conditions options m \<and> select_similar cosine_distance embedding m = Some r}"
  by (auto simp: similar_ordered_def set_map_filter)

lemma sorted_similar_ordered:
  "sorted_wrt (\<lambda>a b. similarity a \<ge> similarity b) (similar_ordered cosine_distance table embedding options)"
proof -
  have "sorted (map (\<lambda>r. - similarity r) (similar_ordered cosine_distance table embedding options))"
    unfolding similar_ordered_def by (rule sorted_sort_key)
  then show ?thesis by (simp add: sorted_map sorted_wrt_iff_nth_less)
qed

lemma length_similar_ordered:
  "length (similar_ordered cosine_distance table embedding options)
     = length (filter (\<lambda>m. search_conditions options m \<and> msg_embedding m \<noteq> None) table)"
proof -
  have "length (List.map_filter (select_similar cosine_distance embedding) xs)
          = length (filter (\<lambda>m. msg_embedding m \<noteq> None) xs)" for xs
    by (induction xs) (auto simp: List.map_filter_simps select_similar_def split: option.splits)
  then show ?thesis by (simp add: similar_ordered_def)
qed

lemma chat_condition_truthy:
  "chat_condition chat m \<longleftrightarrow> (truthy chat \<longrightarrow> chat = Some (Num (msg_chatId m)))"
  by (cases chat rule: truthy.cases) (auto simp: chat_condition_def)

lemma search_conditions_iff:
  "search_conditions options m \<longleftrightarrow>
     (truthy (search_chatId options) \<longrightarrow> search_chatId options = Some (Num (msg_chatId m)))
     \<and> (\<forall>t. search_type options = Some t \<longrightarrow> msg_type m = t)
     \<and> (\<forall>t. search_startTime options = Some t \<longrightarrow> t < msg_createdAt m)
     \<and> (\<forall>t. search_endTime options = Some t \<longrightarrow> msg_createdAt m < t)"
  by (auto simp: search_conditions_def chat_condition_truthy split: option.splits)

lemma findSimilarMessages_Inr:
  assumes "findSimilarMessages cosine_distance table embedding options = Inr rows"
  shows "rows = (if (case search_limit options of None \<Rightarrow> 10 | Some l \<Rightarrow> l) < 0
                 then drop (nat (case search_offset options of None \<Rightarrow> 0 | Some k \<Rightarrow> k))
                        (similar_ordered cosine_distance table embedding options)
                 else take (nat (case search_limit options of None \<Rightarrow> 10 | Some l \<Rightarrow> l))
                        (drop (nat (case search_offset options of None \<Rightarrow> 0 | Some k \<Rightarrow> k))
                           (similar_ordered cosine_distance table embedding options)))"
  using assms
  by (auto simp: findSimilarMessages_def Let_def sql_limit_def sql_offset_def
      split: if_splits sum.splits)

lemma findSimilarMessages_returns:
  assumes "0 \<le> (case search_offset options of None \<Rightarrow> 0 | Some k \<Rightarrow> k)"
    and "(case search_offset options of None \<Rightarrow> 0 | Some k \<Rightarrow> k) \<le> bigint_max"
    and "(case search_limit options of None \<Rightarrow> 10 | Some l \<Rightarrow> l) \<le> bigint_max"
  shows "\<exists>rows. findSimilarMessages cosine_distance table embedding options = Inr rows"
  using assms
  by (auto simp: findSimilarMessages_def Let_def sql_limit_def sql_offset_def)

text \<open>
  Claim C6, as the code has it. With an offset that is not negative and a limit and an
  offset within \<open>bigint\<close> the search returns. What it returns is a page of the list of all
  matching rows in the order of descending similarity: \<open>offset\<close> rows are left out, and
  at most \<open>limit\<close> rows are returned, 10 when no limit is given; a negative limit is not
  applied, every row after the offset is returned. Every row of the list comes from a
  row of the table that has an embedding and passes every filter whose value is truthy
  (a chat id of 0 restricts nothing), with the similarity 1 minus the distance of its
  embedding to the query; and every such row of the table has its row in the list.
\<close>

theorem similar_messages_page:
  "(0 \<le> (case search_offset options of None \<Rightarrow> 0 | Some k \<Rightarrow> k)
      \<and> (case search_offset options of None \<Rightarrow> 0 | Some k \<Rightarrow> k) \<le> bigint_max
      \<and> (case search_limit options of None \<Rightarrow> 10 | Some l \<Rightarrow> l) \<le> bigint_max \<longrightarrow>
      (\<exists>rows. findSimilarMessages cosine_distance table embedding options = Inr rows))
   \<and> (\<forall>rows. findSimilarMessages cosine_distance table embedding options = Inr rows \<longrightarrow>
        rows = (if (case search_limit options of None \<Rightarrow> 10 | Some l \<Rightarrow> l) < 0
                then drop (nat (case search_offset options of None \<Rightarrow> 0 | Some k \<Rightarrow> k))
                       (similar_ordered cosine_distance table embedding options)
                else take (nat (case search_limit options of None \<Rightarrow> 10 | Some l \<Rightarrow> l))
                       (drop (nat (case search_offset options of None \<Rightarrow> 0 | Some k \<Rightarrow> k))
                          (similar_ordered cosine_distance table embedding options)))
        \<and> (0 \<le> (case search_limit options of None \<Rightarrow> 10 | Some l \<Rightarrow> l) \<longrightarrow>
             length rows \<le> nat (case search_limit options of None \<Rightarrow> 10 | Some l \<Rightarrow> l))
        \<and> sorted_wrt (\<lambda>a b. similarity a \<ge> similarity b) rows
        \<and> (\<forall>r \<in> set rows. \<exists>m \<in> set table. \<exists>e.
              msg_embedding m = Some e
              \<and> r = \<lparr>sim_id = msg_id m, sim_chatId = msg_chatId m, sim_type = msg_type m,
                      sim_content = msg_content m, sim_createdAt = msg_createdAt m,
                      sim_fromId = msg_fromId m, similarity = 1 - cosine_distance e embedding\<rparr>
              \<and> (truthy (search_chatId options) \<longrightarrow> search_chatId options = Some (Num (msg_chatId m)))
              \<and> (\<forall>t. search_type options = Some t \<longrightarrow> msg_type m = t)
              \<and> (\<forall>t. search_startTime options = Some t \<longrightarrow> t < msg_createdAt m)
              \<and> (\<forall>t. search_endTime options = Some t \<longrightarrow> msg_createdAt m < t)))
   \<and> sorted_wrt (\<lambda>a b. similarity a \<ge> similarity b)
        (similar_ordered cosine_distance table embedding options)
   \<and> length (similar_ordered cosine_distance table embedding options)
        = length (filter (\<lambda>m. search_conditions options m \<and> msg_embedding m \<noteq> None) table)
   \<and> (\<forall>m \<in> set table. \<forall>e.
         msg_embedding m = Some e
         \<and> (truthy (search_chatId options) \<longrightarrow> search_chatId options = Some (Num (msg_chatId m)))
         \<and> (\<forall>t. search_type options = Some t \<longrightarrow> msg_type m = t)
         \<and> (\<forall>t. search_startTime options = Some t \<longrightarrow> t < msg_createdAt m)
         \<and> (\<forall>t. search_endTime options = Some t \<longrightarrow> msg_createdAt m < t) \<longrightarrow>
         \<lparr>sim_id = msg_id m, sim_chatId = msg_chatId m, sim_type = msg_type m,
          sim_content = msg_content m, sim_createdAt = msg_createdAt m,
          sim_fromId = msg_fromId m, similarity = 1 - cosine_distance e embedding\<rparr>
           \<in> set (similar_ordered cosine_distance table embedding options))"
proof -
  let ?limit = "case search_limit options of None \<Rightarrow> 10 | Some l \<Rightarrow> l"
  let ?offset = "case search_offset options of None \<Rightarrow> 0 | Some k \<Rightarrow> k"
  let ?all = "similar_ordered cosine_distance table embedding options"
  let ?row = "\<lambda>m e. \<lparr>sim_id = msg_id m, sim_chatId = msg_chatId m, sim_type = msg_type m,
                      sim_content = msg_content m, sim_createdAt = msg_createdAt m,
                      sim_fromId = msg_fromId m, similarity = 1 - cosine_distance e embedding\<rparr>"
  let ?pass = "\<lambda>m. (truthy (search_chatId options) \<longrightarrow> search_chatId options = Some (Num (msg_chatId m)))
              \<and> (\<forall>t. search_type options = Some t \<longrightarrow> msg_type m = t)
              \<and> (\<forall>t. search_startTime options = Some t \<longrightarrow> t < msg_createdAt m)
              \<and> (\<forall>t. search_endTime options = Some t \<longrightarrow> msg_createdAt m < t)"
  have total: "0 \<le> ?offset \<and> ?offset \<le> bigint_max \<and> ?limit \<le> bigint_max \<longrightarrow>
      (\<exists>rows. findSimilarMessages cosine_distance table embedding options = Inr rows)"
    using findSimilarMessages_returns [of options cosine_distance table embedding] by blast
  have sorted_all: "sorted_wrt (\<lambda>a b. similarity a \<ge> similarity b) ?all"
    by (rule sorted_similar_ordered)
  have all_sound: "\<forall>r \<in> set ?all. \<exists>m \<in> set table. \<exists>e. msg_embedding m = Some e \<and> r = ?row m e \<and> ?pass m"
  proof
    fix r assume "r \<in> set ?all"
    then obtain m where m: "m \<in> set table" "search_conditions options m"
        "select_similar cosine_distance embedding m = Some r"
      by (auto simp: set_similar_ordered)
    from m(3) obtain e where e: "msg_embedding m = Some e" "r = ?row m e"
      by (auto simp: select_similar_Some)
    from m(2) have "?pass m" unfolding search_conditions_iff by blast
    with m(1) e show "\<exists>m \<in> set table. \<exists>e. msg_embedding m = Some e \<and> r = ?row m e \<and> ?pass m"
      by blast
  qed
  have all_complete: "\<forall>m \<in> set table. \<forall>e. msg_embedding m = Some e \<and> ?pass m \<longrightarrow> ?row m e \<in> set ?all"
  proof (intro ballI allI impI)
    fix m e assume m: "m \<in> set table" and h: "msg_embedding m = Some e \<and> ?pass m"
    then have "search_conditions options m" unfolding search_conditions_iff by blast
    moreover from h have "select_similar cosine_distance embedding m = Some (?row m e)"
      by (simp add: select_similar_Some)
    ultimately show "?row m e \<in> set ?all" using m by (auto simp: set_similar_ordered)
  qed
  have page: "\<forall>rows. findSimilarMessages cosine_distance table embedding options = Inr rows \<longrightarrow>
        rows = (if ?limit < 0 then drop (nat ?offset) ?all else take (nat ?limit) (drop (nat ?offset) ?all))
        \<and> (0 \<le> ?limit \<longrightarrow> length rows \<le> nat ?limit)
        \<and> sorted_wrt (\<lambda>a b. similarity a \<ge> similarity b) rows
        \<and> (\<forall>r \<in> set rows. \<exists>m \<in> set table. \<exists>e. msg_embedding m = Some e \<and> r = ?row m e \<and> ?pass m)"
  proof (intro allI impI)
    fix rows assume "findSimilarMessages cosine_distance table embedding options = Inr rows"
    then have rows: "rows = (if ?limit < 0 then drop (nat ?offset) ?all
                             else take (nat ?limit) (drop (nat ?offset) ?all))"
      by (rule findSimilarMessages_Inr)
    have len: "0 \<le> ?limit \<longrightarrow> length rows \<le> nat ?limit" by (simp add: rows)
    from sorted_all have d: "sorted_wrt (\<lambda>a b. similarity a \<ge> similarity b) (drop (nat ?offset) ?all)"
      by (rule sorted_wrt_drop)
    then have "sorted_wrt (\<lambda>a b. similarity a \<ge> similarity b) (take (nat ?limit) (drop (nat ?offset) ?all))"
      by (rule sorted_wrt_take)
    with d have sorted_rows: "sorted_wrt (\<lambda>a b. similarity a \<ge> similarity b) rows"
      by (simp add: rows)
    have sub: "set rows \<subseteq> set ?all"
      unfolding rows by (auto dest: in_set_takeD in_set_dropD)
    have sound: "\<forall>r \<in> set rows. \<exists>m \<in> set table. \<exists>e. msg_embedding m = Some e \<and> r = ?row m e \<and> ?pass m"
    proof (rule ballI)
      fix r assume "r \<in> set rows"
      with sub have "r \<in> set ?all" by (rule subsetD)
      with all_sound show "\<exists>m \<in> set table. \<exists>e. msg_embedding m = Some e \<and> r = ?row m e \<and> ?pass m"
        by (rule bspec)
    qed
    show "rows = (if ?limit < 0 then drop (nat ?offset) ?all else take (nat ?limit) (drop (nat ?offset) ?all))
        \<and> (0 \<le> ?limit \<longrightarrow> length rows \<le> nat ?limit)
        \<and> sorted_wrt (\<lambda>a b. similarity a \<ge> similarity b) rows
        \<and> (\<forall>r \<in> set rows. \<exists>m \<in> set table. \<exists>e. msg_embedding m = Some e \<and> r = ?row m e \<and> ?pass m)"
      by (rule conjI [OF rows conjI [OF len conjI [OF sorted_rows sound]]])
  qed
  show ?thesis
    by (rule conjI [OF total conjI [OF page conjI [OF sorted_all
          conjI [OF length_similar_ordered [of cosine_distance table embedding options]
            all_complete]]]])
qed

text \<open>Two rows of chat 5 and one of chat 6, the filter on chat 5, a page of one row.\<close>

theorem similar_messages_page_witness:
  "findSimilarMessages unit_cosine_distance
      [(text_message 1 5 (Some [97]))\<lparr>msg_embedding := Some [0, 1]\<rparr>,
       (text_message 2 6 (Some [98]))\<lparr>msg_embedding := Some [1, 0]\<rparr>,
       (text_message 3 5 (Some [99]))\<lparr>msg_embedding := Some [1, 0]\<rparr>,
       text_message 4 5 (Some [100])] [1, 0]
      (no_filter\<lparr>search_chatId := Some (Num 5), search_limit := Some 1\<rparr>)
     = Inr [\<lparr>sim_id = 3, sim_chatId = 5, sim_type = Text, sim_content = Some [99],
              sim_createdAt = 0, sim_fromId = None, similarity = 1\<rparr>]
   \<and> length [\<lparr>sim_id = 3, sim_chatId = 5, sim_type = Text, sim_content = Some [99],
              sim_createdAt = 0, sim_fromId = None, similarity = 1\<rparr>]
       \<le> nat (case search_limit (no_filter\<lparr>search_chatId := Some (Num 5), search_limit := Some 1\<rparr>)
                of None \<Rightarrow> 10 | Some l \<Rightarrow> l)"
proof -
  let ?T = "[(text_message 1 5 (Some [97]))\<lparr>msg_embedding := Some [0, 1]\<rparr>,
       (text_message 2 6 (Some [98]))\<lparr>msg_embedding := Some [1, 0]\<rparr>,
       (text_message 3 5 (Some [99]))\<lparr>msg_embedding := Some [1, 0]\<rparr>,
       text_message 4 5 (Some [100])]"
  let ?O = "no_filter\<lparr>search_chatId := Some (Num 5), search_limit := Some 1\<rparr>"
  let ?R = "[\<lparr>sim_id = 3, sim_chatId = 5, sim_type = Text, sim_content = Some [99],
              sim_createdAt = 0, sim_fromId = None, similarity = 1\<rparr>]"
  have r: "findSimilarMessages unit_cosine_distance ?T [1, 0] ?O = Inr ?R"
    by (simp add: findSimilarMessages_def similar_ordered_def Let_def search_conditions_def
        chat_condition_def no_filter_def text_message_def select_similar_def List.map_filter_simps
        unit_cosine_distance_def sql_limit_def sql_offset_def bigint_max_def)
  have l: "0 \<le> (case search_limit ?O of None \<Rightarrow> 10 | Some l \<Rightarrow> l)" by simp
  note page = conjunct1 [OF conjunct2 [OF similar_messages_page [of ?O unit_cosine_distance ?T "[1, 0]"]]]
  note bound = conjunct1 [OF conjunct2 [OF page [rule_format, OF r]]]
  from bound l
  have "length ?R \<le> nat (case search_limit ?O of None \<Rightarrow> 10 | Some l \<Rightarrow> l)"
    by (rule mp)
  with r show ?thesis by (rule conjI)
qed

text \<open>
  With the chat id 0 given as a filter the search returns a row of chat 5: the rows
  returned do not satisfy every filter that was supplied. With the limit -1 the search
  returns both matching rows: the limit does not bound the page.
\<close>

theorem similar_messages_counterexample:
  "findSimilarMessages unit_cosine_distance
      [(text_message 1 5 (Some [104, 105]))\<lparr>msg_embedding := Some [1, 0]\<rparr>] [1, 0]
      \<lparr>search_chatId = Some (Num 0), search_type = None, search_startTime = None,
       search_endTime = None, search_limit = None, search_offset = None\<rparr>
     = Inr [\<lparr>sim_id = 1, sim_chatId = 5, sim_type = Text, sim_content = Some [104, 105],
              sim_createdAt = 0, sim_fromId = None, similarity = 1\<rparr>]
   \<and> findSimilarMessages unit_cosine_distance
      [(text_message 1 5 (Some [97]))\<lparr>msg_embedding := Some [1, 0]\<rparr>,
       (text_message 2 5 (Some [98]))\<lparr>msg_embedding := Some [0, 1]\<rparr>] [1, 0]
      \<lparr>search_chatId = None, search_type = None, search_startTime = None,
       search_endTime = None, search_limit = Some (- 1), search_offset = None\<rparr>
     = Inr [\<lparr>sim_id = 1, sim_chatId = 5, sim_type = Text, sim_content = Some [97],
              sim_createdAt = 0, sim_fromId = None, similarity = 1\<rparr>,
            \<lparr>sim_id = 2, sim_chatId = 5, sim_type = Text, sim_content = Some [98],
              sim_createdAt = 0, sim_fromId = None, similarity = 0\<rparr>]"
  by (simp add: findSimilarMessages_def similar_ordered_def Let_def search_conditions_def
      chat_condition_def text_message_def select_similar_def List.map_filter_simps
      unit_cosine_distance_def sql_limit_def sql_offset_def bigint_max_def)

section \<open>Inserting messages\<close>

lemma list_ex_key: "list_ex (\<lambda>r. key r = key v) table \<longleftrightarrow> key v \<in> key ` set table"
  unfolding list_ex_iff image_iff by metis

lemma insert_values_do_nothing:
  "\<exists>new. insert_values key DoNothing (table, returned) vs = Inr (table @ new, returned @ new)
        \<and> set new \<subseteq> set vs
        \<and> (\<forall>r \<in> set new. key r \<notin> key ` set table)
        \<and> distinct (map key new)
        \<and> key ` set vs \<subseteq> key ` set (table @ new)"
proof (induction vs arbitrary: table returned)
  case Nil
  then show ?case by simp
next
  case (Cons v vs)
  show ?case
  proof (cases "key v \<in> key ` set table")
    case True
    then have step: "insert_row key DoNothing (table, returned) v = Inr (table, returned)"
      by (simp add: insert_row_def list_ex_key)
    from Cons.IH [of table returned] obtain new where
      new: "insert_values key DoNothing (table, returned) vs = Inr (table @ new, returned @ new)"
        "set new \<subseteq> set vs" "\<forall>r \<in> set new. key r \<notin> key ` set table" "distinct (map key new)"
        "key ` set vs \<subseteq> key ` set (table @ new)"
      by blast
    from step new(1) have "insert_values key DoNothing (table, returned) (v # vs)
        = Inr (table @ new, returned @ new)" by simp
    moreover from new(2) have "set new \<subseteq> set (v # vs)" by auto
    moreover from True new(5) have "key ` set (v # vs) \<subseteq> key ` set (table @ new)" by auto
    ultimately show ?thesis using new(3,4) by blast
  next
    case False
    then have step: "insert_row key DoNothing (table, returned) v = Inr (table @ [v], returned @ [v])"
      by (simp add: insert_row_def list_ex_key)
    from Cons.IH [of "table @ [v]" "returned @ [v]"] obtain new where
      new: "insert_values key DoNothing (table @ [v], returned @ [v]) vs
              = Inr ((table @ [v]) @ new, (returned @ [v]) @ new)"
        "set new \<subseteq> set vs" "\<forall>r \<in> set new. key r \<notin> key ` set (table @ [v])"
        "distinct (map key new)" "key ` set vs \<subseteq> key ` set ((table @ [v]) @ new)"
      by blast
    from step new(1) have "insert_values key DoNothing (table, returned) (v # vs)
        = Inr (table @ (v # new), returned @ (v # new))" by simp
    moreover from new(2) have "set (v # new) \<subseteq> set (v # vs)" by auto
    moreover from False new(3) have "\<forall>r \<in> set (v # new). key r \<notin> key ` set table" by auto
    moreover from new(3,4) have "distinct (map key (v # new))" by auto
    moreover from new(5) have "key ` set (v # vs) \<subseteq> key ` set (table @ (v # new))" by auto
    ultimately show ?thesis by blast
  qed
qed

text \<open>The insert without a conflict clause raises on a key that is taken.\<close>

lemma plain_insert_raises_on_duplicate:
  "key v \<in> key ` set table \<Longrightarrow> insert_values key RaiseError (table, []) [v] = Inl UniqueViolation"
  by (simp add: insert_row_def list_ex_key)

lemma createMessage_keeps_ids_distinct:
  assumes "createMessage table messageArray = Inr (table', returned)"
    and "distinct (map msg_id table)"
  shows "distinct (map msg_id table')"
proof -
  from insert_values_do_nothing [of message_key table "[]" "map message_values messageArray"]
  obtain new where new:
    "insert_values message_key DoNothing (table, []) (map message_values messageArray)
       = Inr (table @ new, [] @ new)"
    "\<forall>r \<in> set new. message_key r \<notin> message_key ` set table" "distinct (map message_key new)"
    by blast
  from assms(1) new(1) have "table' = table @ new"
    by (simp add: createMessage_def split: if_splits)
  moreover have "message_key = msg_id" by (simp add: fun_eq_iff message_key_def)
  ultimately show ?thesis using new(2,3) assms(2) by (fastforce simp: image_iff)
qed

text \<open>
  Claim C7. A call of \<open>createMessage\<close> with a message whose id is in the table returns
  no row and leaves the table as it is. In general a call with a non-empty array raises
  nothing; the rows it returns are new rows built from the array, none with an id that
  was in the table; the table afterwards is the table before, unchanged, followed by the
  returned rows; and every id of the array is in it.
\<close>

theorem duplicate_message_is_skipped:
  "(nm_id msg \<in> msg_id ` set table \<longrightarrow> createMessage table [msg] = Inr (table, []))
   \<and> (messageArray \<noteq> [] \<longrightarrow>
        (\<exists>returned. createMessage table messageArray = Inr (table @ returned, returned)
           \<and> set returned \<subseteq> message_values ` set messageArray
           \<and> (\<forall>r \<in> set returned. msg_id r \<notin> msg_id ` set table)
           \<and> nm_id ` set messageArray \<subseteq> msg_id ` set (table @ returned)))"
proof -
  have key: "message_key = msg_id" by (simp add: fun_eq_iff message_key_def)
  have id: "msg_id (message_values m) = nm_id m" for m by (simp add: message_values_def)
  have a: "nm_id msg \<in> msg_id ` set table \<longrightarrow> createMessage table [msg] = Inr (table, [])"
    using list_ex_key [of msg_id "message_values msg" table]
    by (simp add: createMessage_def insert_row_def key id)
  have b: "messageArray \<noteq> [] \<longrightarrow>
        (\<exists>returned. createMessage table messageArray = Inr (table @ returned, returned)
           \<and> set returned \<subseteq> message_values ` set messageArray
           \<and> (\<forall>r \<in> set returned. msg_id r \<notin> msg_id ` set table)
           \<and> nm_id ` set messageArray \<subseteq> msg_id ` set (table @ returned))"
  proof
    assume ne: "messageArray \<noteq> []"
    from insert_values_do_nothing [of message_key table "[]" "map message_values messageArray"]
    obtain new where new:
      "insert_values message_key DoNothing (table, []) (map message_values messageArray)
         = Inr (table @ new, [] @ new)"
      "set new \<subseteq> set (map message_values messageArray)"
      "\<forall>r \<in> set new. message_key r \<notin> message_key ` set table"
      "message_key ` set (map message_values messageArray) \<subseteq> message_key ` set (table @ new)"
      by blast
    from ne new(1) have "createMessage table messageArray = Inr (table @ new, new)"
      by (simp add: createMessage_def)
    moreover from new(2) have "set new \<subseteq> message_values ` set messageArray" by simp
    moreover from new(3) have "\<forall>r \<in> set new. msg_id r \<notin> msg_id ` set table" by (simp add: key)
    moreover have "nm_id ` set messageArray \<subseteq> msg_id ` set (table @ new)"
    proof
      fix i assume "i \<in> nm_id ` set messageArray"
      then obtain m where "m \<in> set messageArray" "i = nm_id m" by blast
      then have "i \<in> message_key ` set (map message_values messageArray)"
        by (force simp: key id)
      with new(4) show "i \<in> msg_id ` set (table @ new)" by (auto simp: key)
    qed
    ultimately show "\<exists>returned. createMessage table messageArray = Inr (table @ returned, returned)
           \<and> set returned \<subseteq> message_values ` set messageArray
           \<and> (\<forall>r \<in> set returned. msg_id r \<notin> msg_id ` set table)
           \<and> nm_id ` set messageArray \<subseteq> msg_id ` set (table @ returned)"
      by blast
  qed
  from a b show ?thesis by blast
qed

text \<open>
  Message 7 is in the table, with its embedding; it comes again, with another text,
  together with message 8: only message 8 is inserted and returned.
\<close>

theorem duplicate_message_is_skipped_witness:
  "createMessage [(text_message 7 1 (Some [104, 105]))\<lparr>msg_embedding := Some [1, 0]\<rparr>]
      [new_text_message 7 1 (Some [98, 121, 101])]
     = Inr ([(text_message 7 1 (Some [104, 105]))\<lparr>msg_embedding := Some [1, 0]\<rparr>], [])
   \<and> createMessage [(text_message 7 1 (Some [104, 105]))\<lparr>msg_embedding := Some [1, 0]\<rparr>]
      [new_text_message 7 1 (Some [98, 121, 101]), new_text_message 8 1 (Some [111, 107])]
     = Inr ([(text_message 7 1 (Some [104, 105]))\<lparr>msg_embedding := Some [1, 0]\<rparr>,
             text_message 8 1 (Some [111, 107])],
            [text_message 8 1 (Some [111, 107])])"
proof -
  let ?T = "[(text_message 7 1 (Some [104, 105]))\<lparr>msg_embedding := Some [1, 0]\<rparr>]"
  have "nm_id (new_text_message 7 1 (Some [98, 121, 101])) \<in> msg_id ` set ?T"
    by (simp add: new_text_message_def text_message_def)
  with duplicate_message_is_skipped [of "new_text_message 7 1 (Some [98, 121, 101])" ?T "[]"]
  have "createMessage ?T [new_text_message 7 1 (Some [98, 121, 101])] = Inr (?T, [])"
    by blast
  moreover have "createMessage ?T
      [new_text_message 7 1 (Some [98, 121, 101]), new_text_message 8 1 (Some [111, 107])]
     = Inr (?T @ [text_message 8 1 (Some [111, 107])], [text_message 8 1 (Some [111, 107])])"
    by (simp add: createMessage_def insert_row_def message_key_def message_values_def
        new_text_message_def text_message_def string_or_null_def number_or_null_def)
  ultimately show ?thesis by simp
qed

section \<open>Chats and folders\<close>

lemma insert_row_do_update_absent:
  "key v \<notin> key ` set table \<Longrightarrow>
   insert_row key (DoUpdate f) (table, []) v = Inr (table @ [v], [v])"
  by (simp add: insert_row_def list_ex_key)

lemma insert_row_do_update_present:
  "key v \<in> key ` set table \<Longrightarrow>
   insert_row key (DoUpdate f) (table, []) v
     = Inr (map (\<lambda>r. if key r = key v then f r else r) table,
            map f (filter (\<lambda>r. key r = key v) table))"
  by (simp add: insert_row_def list_ex_key)

lemma insert_row_do_update_never_raises:
  "insert_row key (DoUpdate f) (table, []) v \<noteq> Inl e"
  by (simp add: insert_row_def)

text \<open>
  Claim C8. \<open>updateChat\<close> and \<open>updateFolder\<close> append the row built from the data when no
  row has the id. Otherwise the table keeps its length, every row with another id is as
  it was, and the row with the id keeps its id and every column the conflict clause does
  not name, and has in the named columns the values of the data (a named column whose
  value is \<open>undefined\<close> in the data keeps its value). No call raises an error.
\<close>

theorem upsert_overwrites_named_columns_only:
  "(nc_id cdata \<notin> chat_id ` set chats \<longrightarrow>
      updateChat cdefaults chats cdata
        = Inr (chats @ [chat_values cdefaults cdata], [chat_values cdefaults cdata])
      \<and> chat_id (chat_values cdefaults cdata) = nc_id cdata)
   \<and> (nc_id cdata \<in> chat_id ` set chats \<longrightarrow>
      (\<exists>chats' returned. updateChat cdefaults chats cdata = Inr (chats', returned)
         \<and> length chats' = length chats
         \<and> (\<forall>j < length chats.
               if chat_id (chats ! j) = nc_id cdata
               then chat_id (chats' ! j) = chat_id (chats ! j)
                  \<and> chat.more (chats' ! j) = chat.more (chats ! j)
                  \<and> chat_name (chats' ! j) = nc_name cdata
                  \<and> chat_type (chats' ! j) = nc_type cdata
                  \<and> chat_lastMessage (chats' ! j)
                      = given (nc_lastMessage cdata) (chat_lastMessage (chats ! j))
                  \<and> chat_lastMessageDate (chats' ! j)
                      = given (nc_lastMessageDate cdata) (chat_lastMessageDate (chats ! j))
                  \<and> chat_lastSyncTime (chats' ! j)
                      = given (nc_lastSyncTime cdata) (chat_lastSyncTime (chats ! j))
                  \<and> chat_messageCount (chats' ! j)
                      = given (nc_messageCount cdata) (chat_messageCount (chats ! j))
                  \<and> chat_folderId (chats' ! j)
                      = given (nc_folderId cdata) (chat_folderId (chats ! j))
               else chats' ! j = chats ! j)))
   \<and> (\<forall>e. updateChat cdefaults chats cdata \<noteq> Inl e)
   \<and> (nf_id fdata \<notin> folder_id ` set folders \<longrightarrow>
      updateFolder fdefaults folders fdata
        = Inr (folders @ [folder_values fdefaults fdata], [folder_values fdefaults fdata])
      \<and> folder_id (folder_values fdefaults fdata) = nf_id fdata)
   \<and> (nf_id fdata \<in> folder_id ` set folders \<longrightarrow>
      (\<exists>folders' returned. updateFolder fdefaults folders fdata = Inr (folders', returned)
         \<and> length folders' = length folders
         \<and> (\<forall>j < length folders.
               if folder_id (folders ! j) = nf_id fdata
               then folder_id (folders' ! j) = folder_id (folders ! j)
                  \<and> folder.more (folders' ! j) = folder.more (folders ! j)
                  \<and> folder_title (folders' ! j) = nf_title fdata
                  \<and> folder_emoji (folders' ! j)
                      = given (nf_emoji fdata) (folder_emoji (folders ! j))
                  \<and> folder_lastSyncTime (folders' ! j)
                      = given (nf_lastSyncTime fdata) (folder_lastSyncTime (folders ! j))
               else folders' ! j = folders ! j)))
   \<and> (\<forall>e. updateFolder fdefaults folders fdata \<noteq> Inl e)"
proof -
  have cid: "chat_id (chat_values cdefaults cdata) = nc_id cdata"
    by (simp add: chat_values_def)
  have fid: "folder_id (folder_values fdefaults fdata) = nf_id fdata"
    by (simp add: folder_values_def)
  have c1: "nc_id cdata \<notin> chat_id ` set chats \<longrightarrow>
      updateChat cdefaults chats cdata
        = Inr (chats @ [chat_values cdefaults cdata], [chat_values cdefaults cdata])
      \<and> chat_id (chat_values cdefaults cdata) = nc_id cdata"
    using insert_row_do_update_absent [of chat_id "chat_values cdefaults cdata" chats "chat_set cdata"]
    by (simp add: updateChat_def cid)
  have c2: "nc_id cdata \<in> chat_id ` set chats \<longrightarrow>
      (\<exists>chats' returned. updateChat cdefaults chats cdata = Inr (chats', returned)
         \<and> length chats' = length chats
         \<and> (\<forall>j < length chats.
               if chat_id (chats ! j) = nc_id cdata
               then chat_id (chats' ! j) = chat_id (chats ! j)
                  \<and> chat.more (chats' ! j) = chat.more (chats ! j)
                  \<and> chat_name (chats' ! j) = nc_name cdata
                  \<and> chat_type (chats' ! j) = nc_type cdata
                  \<and> chat_lastMessage (chats' ! j)
                      = given (nc_lastMessage cdata) (chat_lastMessage (chats ! j))
                  \<and> chat_lastMessageDate (chats' ! j)
                      = given (nc_lastMessageDate cdata) (chat_lastMessageDate (chats ! j))
                  \<and> chat_lastSyncTime (chats' ! j)
                      = given (nc_lastSyncTime cdata) (chat_lastSyncTime (chats ! j))
                  \<and> chat_messageCount (chats' ! j)
                      = given (nc_messageCount cdata) (chat_messageCount (chats ! j))
                  \<and> chat_folderId (chats' ! j)
                      = given (nc_folderId cdata) (chat_folderId (chats ! j))
               else chats' ! j = chats ! j))"
  proof
    assume "nc_id cdata \<in> chat_id ` set chats"
    then have "updateChat cdefaults chats cdata
        = Inr (map (\<lambda>r. if chat_id r = nc_id cdata then chat_set cdata r else r) chats,
               map (chat_set cdata) (filter (\<lambda>r. chat_id r = nc_id cdata) chats))"
      using insert_row_do_update_present [of chat_id "chat_values cdefaults cdata" chats "chat_set cdata"]
      by (simp add: updateChat_def cid)
    then show "\<exists>chats' returned. updateChat cdefaults chats cdata = Inr (chats', returned)
         \<and> length chats' = length chats
         \<and> (\<forall>j < length chats.
               if chat_id (chats ! j) = nc_id cdata
               then chat_id (chats' ! j) = chat_id (chats ! j)
                  \<and> chat.more (chats' ! j) = chat.more (chats ! j)
                  \<and> chat_name (chats' ! j) = nc_name cdata
                  \<and> chat_type (chats' ! j) = nc_type cdata
                  \<and> chat_lastMessage (chats' ! j)
                      = given (nc_lastMessage cdata) (chat_lastMessage (chats ! j))
                  \<and> chat_lastMessageDate (chats' ! j)
                      = given (nc_lastMessageDate cdata) (chat_lastMessageDate (chats ! j))
                  \<and> chat_lastSyncTime (chats' ! j)
                      = given (nc_lastSyncTime cdata) (chat_lastSyncTime (chats ! j))
                  \<and> chat_messageCount (chats' ! j)
                      = given (nc_messageCount cdata) (chat_messageCount (chats ! j))
                  \<and> chat_folderId (chats' ! j)
                      = given (nc_folderId cdata) (chat_folderId (chats ! j))
               else chats' ! j = chats ! j)"
      by (simp add: chat_set_def)
  qed
  have c3: "\<forall>e. updateChat cdefaults chats cdata \<noteq> Inl e"
    by (simp add: updateChat_def insert_row_do_update_never_raises)
  have f1: "nf_id fdata \<notin> folder_id ` set folders \<longrightarrow>
      updateFolder fdefaults folders fdata
        = Inr (folders @ [folder_values fdefaults fdata], [folder_values fdefaults fdata])
      \<and> folder_id (folder_values fdefaults fdata) = nf_id fdata"
    using insert_row_do_update_absent [of folder_id "folder_values fdefaults fdata" folders "folder_set fdata"]
    by (simp add: updateFolder_def fid)
  have f2: "nf_id fdata \<in> folder_id ` set folders \<longrightarrow>
      (\<exists>folders' returned. updateFolder fdefaults folders fdata = Inr (folders', returned)
         \<and> length folders' = length folders
         \<and> (\<forall>j < length folders.
               if folder_id (folders ! j) = nf_id fdata
               then folder_id (folders' ! j) = folder_id (folders ! j)
                  \<and> folder.more (folders' ! j) = folder.more (folders ! j)
                  \<and> folder_title (folders' ! j) = nf_title fdata
                  \<and> folder_emoji (folders' ! j)
                      = given (nf_emoji fdata) (folder_emoji (folders ! j))
                  \<and> folder_lastSyncTime (folders' ! j)
                      = given (nf_lastSyncTime fdata) (folder_lastSyncTime (folders ! j))
               else folders' ! j = folders ! j))"
  proof
    assume "nf_id fdata \<in> folder_id ` set folders"
    then have "updateFolder fdefaults folders fdata
        = Inr (map (\<lambda>r. if folder_id r = nf_id fdata then folder_set fdata r else r) folders,
               map (folder_set fdata) (filter (\<lambda>r. folder_id r = nf_id fdata) folders))"
      using insert_row_do_update_present [of folder_id "folder_values fdefaults fdata" folders "folder_set fdata"]
      by (simp add: updateFolder_def fid)
    then show "\<exists>folders' returned. updateFolder fdefaults folders fdata = Inr (folders', returned)
         \<and> length folders' = length folders
         \<and> (\<forall>j < length folders.
               if folder_id (folders ! j) = nf_id fdata
               then folder_id (folders' ! j) = folder_id (folders ! j)
                  \<and> folder.more (folders' ! j) = folder.more (folders ! j)
                  \<and> folder_title (folders' ! j) = nf_title fdata
                  \<and> folder_emoji (folders' ! j)
                      = given (nf_emoji fdata) (folder_emoji (folders ! j))
                  \<and> folder_lastSyncTime (folders' ! j)
                      = given (nf_lastSyncTime fdata) (folder_lastSyncTime (folders ! j))
               else folders' ! j = folders ! j)"
      by (simp add: folder_set_def)
  qed
  have f3: "\<forall>e. updateFolder fdefaults folders fdata \<noteq> Inl e"
    by (simp add: updateFolder_def insert_row_do_update_never_raises)
  from c1 c2 c3 f1 f2 f3 show ?thesis by (simp only: simp_thms)
qed

text \<open>
  Chat 1 is in the table and is updated with a new name, last message, sync time and
  count, its last message date and folder left out; folder 9 is not in the table and is
  inserted, its emoji and sync time taken from the defaults.
\<close>

theorem upsert_overwrites_named_columns_only_witness:
  "updateChat
      \<lparr>chat_id = 0, chat_name = [], chat_type = [], chat_lastMessage = None,
       chat_lastMessageDate = None, chat_lastSyncTime = 0, chat_messageCount = 0,
       chat_folderId = None\<rparr>
      [\<lparr>chat_id = 1, chat_name = [97], chat_type = [117], chat_lastMessage = Some [111],
        chat_lastMessageDate = Some 10, chat_lastSyncTime = 20, chat_messageCount = 3,
        chat_folderId = Some 2\<rparr>,
       \<lparr>chat_id = 2, chat_name = [99], chat_type = [103], chat_lastMessage = None,
        chat_lastMessageDate = None, chat_lastSyncTime = 5, chat_messageCount = 0,
        chat_folderId = None\<rparr>]
      \<lparr>nc_id = 1, nc_name = [98], nc_type = [117], nc_lastMessage = Some (Some [104]),
       nc_lastMessageDate = None, nc_lastSyncTime = Some 30, nc_messageCount = Some 4,
       nc_folderId = None\<rparr>
     = Inr ([\<lparr>chat_id = 1, chat_name = [98], chat_type = [117], chat_lastMessage = Some [104],
              chat_lastMessageDate = Some 10, chat_lastSyncTime = 30, chat_messageCount = 4,
              chat_folderId = Some 2\<rparr>,
             \<lparr>chat_id = 2, chat_name = [99], chat_type = [103], chat_lastMessage = None,
              chat_lastMessageDate = None, chat_lastSyncTime = 5, chat_messageCount = 0,
              chat_folderId = None\<rparr>],
            [\<lparr>chat_id = 1, chat_name = [98], chat_type = [117], chat_lastMessage = Some [104],
              chat_lastMessageDate = Some 10, chat_lastSyncTime = 30, chat_messageCount = 4,
              chat_folderId = Some 2\<rparr>])
   \<and> updateFolder
      \<lparr>folder_id = 0, folder_title = [], folder_emoji = None, folder_lastSyncTime = 77\<rparr>
      [\<lparr>folder_id = 3, folder_title = [102], folder_emoji = None, folder_lastSyncTime = 1\<rparr>]
      \<lparr>nf_id = 9, nf_title = [110], nf_emoji = None, nf_lastSyncTime = None\<rparr>
     = Inr ([\<lparr>folder_id = 3, folder_title = [102], folder_emoji = None, folder_lastSyncTime = 1\<rparr>,
             \<lparr>folder_id = 9, folder_title = [110], folder_emoji = None, folder_lastSyncTime = 77\<rparr>],
            [\<lparr>folder_id = 9, folder_title = [110], folder_emoji = None, folder_lastSyncTime = 77\<rparr>])"
proof -
  let ?cd = "\<lparr>chat_id = 0, chat_name = [], chat_type = [], chat_lastMessage = None,
       chat_lastMessageDate = None, chat_lastSyncTime = 0, chat_messageCount = 0,
       chat_folderId = None\<rparr>"
  let ?c1 = "\<lparr>chat_id = 1, chat_name = [97], chat_type = [117], chat_lastMessage = Some [111],
        chat_lastMessageDate = Some 10, chat_lastSyncTime = 20, chat_messageCount = 3,
        chat_folderId = Some 2\<rparr>"
  let ?c2 = "\<lparr>chat_id = 2, chat_name = [99], chat_type = [103], chat_lastMessage = None,
        chat_lastMessageDate = None, chat_lastSyncTime = 5, chat_messageCount = 0,
        chat_folderId = None\<rparr>"
  let ?x = "\<lparr>nc_id = 1, nc_name = [98], nc_type = [117], nc_lastMessage = Some (Some [104]),
       nc_lastMessageDate = None, nc_lastSyncTime = Some 30, nc_messageCount = Some 4,
       nc_folderId = None\<rparr>"
  let ?fd = "\<lparr>folder_id = 0, folder_title = [], folder_emoji = None, folder_lastSyncTime = 77\<rparr>"
  let ?f3 = "\<lparr>folder_id = 3, folder_title = [102], folder_emoji = None, folder_lastSyncTime = 1\<rparr>"
  let ?y = "\<lparr>nf_id = 9, nf_title = [110], nf_emoji = None, nf_lastSyncTime = None\<rparr>"
  have absent: "nf_id ?y \<notin> folder_id ` set [?f3]" by simp
  from upsert_overwrites_named_columns_only [of ?x "[?c1, ?c2]" ?cd ?y "[?f3]" ?fd] absent
  have "updateFolder ?fd [?f3] ?y = Inr ([?f3] @ [folder_values ?fd ?y], [folder_values ?fd ?y])"
    by blast
  then have f: "updateFolder ?fd [?f3] ?y
     = Inr ([?f3, \<lparr>folder_id = 9, folder_title = [110], folder_emoji = None, folder_lastSyncTime = 77\<rparr>],
            [\<lparr>folder_id = 9, folder_title = [110], folder_emoji = None, folder_lastSyncTime = 77\<rparr>])"
    by (simp add: folder_values_def given_def)
  have c: "updateChat ?cd [?c1, ?c2] ?x
     = Inr ([\<lparr>chat_id = 1, chat_name = [98], chat_type = [117], chat_lastMessage = Some [104],
              chat_lastMessageDate = Some 10, chat_lastSyncTime = 30, chat_messageCount = 4,
              chat_folderId = Some 2\<rparr>, ?c2],
            [\<lparr>chat_id = 1, chat_name = [98], chat_type = [117], chat_lastMessage = Some [104],
              chat_lastMessageDate = Some 10, chat_lastSyncTime = 30, chat_messageCount = 4,
              chat_folderId = Some 2\<rparr>])"
    by (simp add: updateChat_def insert_row_def chat_values_def chat_set_def given_def)
  from c f show ?thesis by (simp only: simp_thms)
qed

section \<open>The eligible rows during a run\<close>

lemma fetched_process_batch:
  "fetched (process_batch gen wfail batch s) = fetched s"
  by (simp add: process_batch_def caught_def Let_def split: option.splits)

lemma store_process_batch_cases:
  "store (process_batch gen wfail batch s) = store s
   \<or> (\<exists>embeddings. filter has_content batch \<noteq> []
         \<and> gen (length (sent s)) (map trimmed_content (filter has_content batch)) = Some embeddings
         \<and> length (filter has_content batch) \<le> length embeddings
         \<and> store (process_batch gen wfail batch s)
             = apply_updates wfail (length (sent s)) (store s)
                 (zip (map row_id (filter has_content batch)) embeddings))"
proof (cases rule: process_batch_cases [where batch = batch and gen = gen and s = s])
  case no_valid
  then show ?thesis by (simp add: process_batch_no_valid)
next
  case throws
  then show ?thesis by (simp add: process_batch_throws [where gen = gen and s = s] caught_def)
next
  case (short embeddings)
  then show ?thesis by (simp add: process_batch_short [where gen = gen and s = s] caught_def)
next
  case (answered embeddings)
  from store_process_batch_answered(1) [where gen = gen and s = s, OF answered] answered
  show ?thesis by auto
qed

lemma conditions_embedded:
  "\<not> conditions chat (m\<lparr>msg_embedding := Some v\<rparr>)"
  by (simp add: conditions_def)

lemma eligible_apply_updates:
  "filter (conditions chat) (apply_updates wfail k table ws)
     = filter (\<lambda>m. conditions chat m \<and> written wfail k ws (msg_id m) = None) table"
  unfolding apply_updates_eq
  by (induction table) (auto simp: conditions_embedded split: option.splits)

lemma ids_apply_updates:
  "map msg_id (apply_updates wfail k table ws) = map msg_id table"
  unfolding apply_updates_eq by (induction table) (auto split: option.splits)

lemma ids_process_batch:
  "map msg_id (store (process_batch gen wfail batch s)) = map msg_id (store s)"
  using store_process_batch_cases [of gen wfail batch s] by (auto simp: ids_apply_updates)

lemma length_filter_key_le:
  assumes "distinct (map f xs)"
  shows "length (filter (\<lambda>x. f x \<in> set ys) xs) \<le> length ys"
proof -
  let ?zs = "map f (filter (\<lambda>x. f x \<in> set ys) xs)"
  from assms have "distinct ?zs" by (simp add: distinct_map_filter)
  then have "card (set ?zs) = length ?zs" by (rule distinct_card)
  then have "length ?zs = card (set ?zs)" by (rule sym)
  also have "\<dots> \<le> card (set ys)" by (rule card_mono) auto
  also have "\<dots> \<le> length ys" by (rule card_length)
  finally show ?thesis by simp
qed

lemma length_filter_split:
  "length (filter P xs)
     = length (filter (\<lambda>x. P x \<and> Q x) xs) + length (filter (\<lambda>x. P x \<and> \<not> Q x) xs)"
  by (induction xs) auto

lemma length_filter_mono:
  "(\<And>x. P x \<Longrightarrow> Q x) \<Longrightarrow> length (filter P xs) \<le> length (filter Q xs)"
  by (induction xs) auto

text \<open>
  When the eligible rows have different ids, an iteration makes at most as many rows
  ineligible as it fetched.
\<close>

lemma eligible_lower_bound:
  assumes "distinct (map msg_id (filter (conditions chat) (store s)))"
  shows "count_eligible chat (store s)
           \<le> count_eligible chat (store (process_batch gen wfail batch s)) + length batch"
proof -
  from store_process_batch_cases [of gen wfail batch s]
  consider "store (process_batch gen wfail batch s) = store s"
    | embeddings where "store (process_batch gen wfail batch s)
             = apply_updates wfail (length (sent s)) (store s)
                 (zip (map row_id (filter has_content batch)) embeddings)"
    by blast
  then show ?thesis
  proof cases
    case 1
    then show ?thesis by simp
  next
    case 2
    let ?ws = "zip (map row_id (filter has_content batch)) embeddings"
    let ?k = "length (sent s)"
    let ?T = "store s"
    let ?hit = "\<lambda>m. msg_id m \<in> set (map fst ?ws)"
    have "length (filter (conditions chat) ?T)
        = length (filter (\<lambda>m. conditions chat m \<and> written wfail ?k ?ws (msg_id m) = None) ?T)
        + length (filter (\<lambda>m. conditions chat m \<and> \<not> written wfail ?k ?ws (msg_id m) = None) ?T)"
      by (rule length_filter_split)
    moreover have "length (filter (\<lambda>m. conditions chat m \<and> \<not> written wfail ?k ?ws (msg_id m) = None) ?T)
        \<le> length (filter (\<lambda>m. conditions chat m \<and> ?hit m) ?T)"
    proof (rule length_filter_mono)
      fix m assume "conditions chat m \<and> \<not> written wfail ?k ?ws (msg_id m) = None"
      then show "conditions chat m \<and> ?hit m"
        using written_Some_iff [of wfail ?k ?ws "msg_id m"] by auto
    qed
    moreover have "length (filter (\<lambda>m. conditions chat m \<and> ?hit m) ?T)
        = length (filter ?hit (filter (conditions chat) ?T))"
      by (simp only: filter_filter)
    moreover have "length (filter ?hit (filter (conditions chat) ?T)) \<le> length (map fst ?ws)"
      using assms by (rule length_filter_key_le)
    moreover have "length (map fst ?ws) \<le> length batch"
    proof -
      have "length (map fst ?ws) \<le> length (filter has_content batch)" by simp
      also have "\<dots> \<le> length batch" by simp
      finally show ?thesis .
    qed
    ultimately show ?thesis
      unfolding count_eligible_def 2 eligible_apply_updates by linarith
  qed
qed

lemma eligible_rows_shrink:
  "set (filter (conditions chat) (store (process_batch gen wfail batch s)))
     \<subseteq> set (filter (conditions chat) (store s))"
proof -
  from store_process_batch_cases [of gen wfail batch s]
  consider "store (process_batch gen wfail batch s) = store s"
    | ws k where "store (process_batch gen wfail batch s) = apply_updates wfail k (store s) ws"
    by blast
  then show ?thesis
  proof cases
    case 1
    then show ?thesis by simp
  next
    case 2
    have "filter (conditions chat) (store (process_batch gen wfail batch s))
        = filter (\<lambda>m. conditions chat m \<and> written wfail k ws (msg_id m) = None) (store s)"
      by (simp only: 2 eligible_apply_updates)
    then show ?thesis by auto
  qed
qed

text \<open>The eligible rows of the table after an iteration are eligible rows of the table before.\<close>

lemma eligible_ids_process_batch:
  assumes "distinct (map msg_id (filter (conditions chat) (store s)))"
  shows "distinct (map msg_id (filter (conditions chat) (store (process_batch gen wfail batch s))))"
proof -
  from store_process_batch_cases [of gen wfail batch s]
  consider "store (process_batch gen wfail batch s) = store s"
    | ws k where "store (process_batch gen wfail batch s) = apply_updates wfail k (store s) ws"
    by blast
  then show ?thesis
  proof cases
    case 1
    with assms show ?thesis by simp
  next
    case 2
    have "filter (conditions chat) (store (process_batch gen wfail batch s))
        = filter (\<lambda>m. written wfail k ws (msg_id m) = None) (filter (conditions chat) (store s))"
      by (simp only: 2 eligible_apply_updates filter_filter)
    with assms show ?thesis by (simp only: distinct_map_filter)
  qed
qed

lemma select_batch_Inr:
  "select_batch chat table n = Inr batch \<Longrightarrow>
   n \<le> bigint_max
   \<and> batch = map project (take (if n < 0 then count_eligible chat table else nat n)
                             (filter (conditions chat) table))"
  by (auto simp: select_batch_def sql_limit_def count_eligible_def take_map bigint_max_def
      split: if_splits)

lemma length_select_batch:
  "select_batch chat table n = Inr batch \<Longrightarrow>
   length batch = (if n < 0 then count_eligible chat table
                   else min (nat n) (count_eligible chat table))"
  by (auto simp: count_eligible_def dest!: select_batch_Inr)

text \<open>
  When every eligible row has text, the provider answers in full and no update is
  rejected, an iteration makes every row it fetched ineligible.
\<close>

lemma eligible_upper_bound:
  assumes valid: "\<forall>m \<in> set (store s). conditions chat m \<longrightarrow> has_content (project m)"
    and provider: "\<forall>texts. \<exists>vs. gen (length (sent s)) texts = Some vs \<and> length texts \<le> length vs"
    and nofail: "\<forall>i. \<not> wfail (length (sent s)) i"
    and sel: "select_batch chat (store s) n = Inr batch"
  shows "count_eligible chat (store (process_batch gen wfail batch s)) + length batch
           \<le> count_eligible chat (store s)"
proof (cases "batch = []")
  case True
  then show ?thesis by (simp add: process_batch_no_valid)
next
  case False
  let ?F = "filter (conditions chat) (store s)"
  let ?N = "if n < 0 then count_eligible chat (store s) else nat n"
  let ?k = "length (sent s)"
  from select_batch_Inr [OF sel] have batch: "batch = map project (take ?N ?F)" by blast
  have all_valid: "filter has_content batch = batch"
  proof -
    have "\<forall>r \<in> set batch. has_content r"
      unfolding batch using valid by (auto dest!: in_set_takeD)
    then show ?thesis by simp
  qed
  from provider obtain embeddings where
    e: "gen ?k (map trimmed_content (filter has_content batch)) = Some embeddings"
       "length (map trimmed_content (filter has_content batch)) \<le> length embeddings"
    by blast
  let ?ws = "zip (map row_id batch) embeddings"
  from e(2) have nshort: "\<not> length embeddings < length (filter has_content batch)" by simp
  from False all_valid have ne: "filter has_content batch \<noteq> []" by simp
  have st: "store (process_batch gen wfail batch s) = apply_updates wfail ?k (store s) ?ws"
    using store_process_batch_answered(1) [where gen = gen and s = s, OF ne e(1) nshort]
    by (simp add: all_valid)
  have fst_ws: "fst ` set ?ws = row_id ` set batch"
  proof -
    have "map fst ?ws = map row_id batch"
      using e(2) by (simp add: all_valid map_fst_zip_take)
    then have "set (map fst ?ws) = set (map row_id batch)" by (rule arg_cong)
    then show ?thesis by simp
  qed
  have ids: "row_id ` set batch = msg_id ` set (take ?N ?F)"
    unfolding batch by (auto simp: project_def image_iff)
  have none: "written wfail ?k ?ws i = None \<longleftrightarrow> i \<notin> msg_id ` set (take ?N ?F)" for i
    using written_Some_iff [of wfail ?k ?ws i] nofail by (auto simp: fst_ws ids)
  have "filter (conditions chat) (store (process_batch gen wfail batch s))
      = filter (\<lambda>m. msg_id m \<notin> msg_id ` set (take ?N ?F)) ?F"
    by (simp add: st eligible_apply_updates none conj_commute)
  also have "\<dots> = filter (\<lambda>m. msg_id m \<notin> msg_id ` set (take ?N ?F)) (take ?N ?F @ drop ?N ?F)"
    by simp
  also have "\<dots> = filter (\<lambda>m. msg_id m \<notin> msg_id ` set (take ?N ?F)) (drop ?N ?F)"
    by (simp only: filter_append) simp
  finally have "length (filter (conditions chat) (store (process_batch gen wfail batch s)))
      = length (filter (\<lambda>m. msg_id m \<notin> msg_id ` set (take ?N ?F)) (drop ?N ?F))"
    by (rule arg_cong)
  also have "\<dots> \<le> length (drop ?N ?F)" by (rule length_filter_le)
  finally have "length (filter (conditions chat) (store (process_batch gen wfail batch s)))
      \<le> length (drop ?N ?F)" .
  moreover have "length batch = length (take ?N ?F)" by (simp add: batch)
  moreover have "length (take ?N ?F) + length (drop ?N ?F) = length ?F"
    by (metis append_take_drop_id length_append)
  ultimately show ?thesis unfolding count_eligible_def by linarith
qed

section \<open>A second run of the backfill\<close>

lemma batch_size_or_default_nonzero: "batch_size_or_default x \<noteq> 0"
  by (cases x rule: batch_size_or_default.cases) auto

lemma clean_run_invariant:
  assumes provider: "\<forall>k texts. \<exists>vs. gen k texts = Some vs \<and> length texts \<le> length vs"
    and nofail: "\<forall>k i. \<not> wfail k i"
    and valid: "\<forall>m \<in> set table. conditions chat m \<longrightarrow> has_content (project m)"
    and v: "visits gen wfail chat n count (init_state table) t"
    and count: "count = count_eligible chat table"
  shows "count_eligible chat (store t) + processed t \<le> count
       \<and> (\<forall>m \<in> set (store t). conditions chat m \<longrightarrow> has_content (project m))"
proof (rule visits_invariant [OF v])
  show "count_eligible chat (store (init_state table)) + processed (init_state table) \<le> count
       \<and> (\<forall>m \<in> set (store (init_state table)). conditions chat m \<longrightarrow> has_content (project m))"
    using valid count by (simp add: init_state_def)
next
  fix s :: loop_state and batch :: "batch_row list"
  assume I: "count_eligible chat (store s) + processed s \<le> count
       \<and> (\<forall>m \<in> set (store s). conditions chat m \<longrightarrow> has_content (project m))"
    and sel: "select_batch chat (store s) n = Inr batch"
  let ?s0 = "s\<lparr>fetched := fetched s @ [length batch]\<rparr>"
  let ?s' = "process_batch gen wfail batch ?s0"
  have "count_eligible chat (store ?s') + length batch \<le> count_eligible chat (store ?s0)"
  proof (rule eligible_upper_bound)
    show "\<forall>m \<in> set (store ?s0). conditions chat m \<longrightarrow> has_content (project m)" using I by simp
    show "\<forall>texts. \<exists>vs. gen (length (sent ?s0)) texts = Some vs \<and> length texts \<le> length vs"
      using provider by blast
    show "\<forall>i. \<not> wfail (length (sent ?s0)) i" using nofail by blast
    show "select_batch chat (store ?s0) n = Inr batch" using sel by simp
  qed
  then have a: "count_eligible chat (store ?s') + processed ?s' \<le> count"
    using I by (simp add: processed_process_batch)
  have b: "\<forall>m \<in> set (store ?s'). conditions chat m \<longrightarrow> has_content (project m)"
  proof (intro ballI impI)
    fix m assume "m \<in> set (store ?s')" "conditions chat m"
    then have "m \<in> set (filter (conditions chat) (store ?s'))" by simp
    with eligible_rows_shrink [of chat gen wfail batch ?s0]
    have "m \<in> set (filter (conditions chat) (store ?s0))" by blast
    then show "has_content (project m)" using I by simp
  qed
  from a b show "count_eligible chat (store ?s') + processed ?s' \<le> count
       \<and> (\<forall>m \<in> set (store ?s'). conditions chat m \<longrightarrow> has_content (project m))"
    by blast
qed

lemma clean_loop_leaves_nothing:
  assumes provider: "\<forall>k texts. \<exists>vs. gen k texts = Some vs \<and> length texts \<le> length vs"
    and nofail: "\<forall>k i. \<not> wfail k i"
    and valid: "\<forall>m \<in> set table. conditions chat m \<longrightarrow> has_content (project m)"
    and n: "n \<noteq> 0"
    and run: "embed_loop gen wfail chat n (count_eligible chat table) (init_state table) = Inr s'"
  shows "count_eligible chat (store s') = 0 \<and> processed s' \<le> count_eligible chat table"
proof -
  let ?count = "count_eligible chat table"
  from embed_loop_exit [OF run] obtain t where
    v: "visits gen wfail chat n ?count (init_state table) t"
    and exit: "?count \<le> processed t \<and> s' = t \<or>
        processed t < ?count \<and> select_batch chat (store t) n = Inr [] \<and> s' = t\<lparr>fetched := fetched t @ [0]\<rparr>"
    by blast
  from clean_run_invariant [OF provider nofail valid v refl]
  have I: "count_eligible chat (store t) + processed t \<le> ?count" by blast
  from exit show ?thesis
  proof
    assume "?count \<le> processed t \<and> s' = t"
    with I show ?thesis by simp
  next
    assume e: "processed t < ?count \<and> select_batch chat (store t) n = Inr [] \<and> s' = t\<lparr>fetched := fetched t @ [0]\<rparr>"
    then have sel: "select_batch chat (store t) n = Inr []" by blast
    from length_select_batch [OF sel]
    have "(if n < 0 then count_eligible chat (store t)
           else min (nat n) (count_eligible chat (store t))) = 0"
      by simp
    with n have "count_eligible chat (store t) = 0"
      by (cases "n < 0") (simp_all add: min_def split: if_splits)
    with e I show ?thesis by simp
  qed
qed

text \<open>
  Claim C2, as the code has it. Let every eligible row have text, the provider answer
  every call with a vector for each text, and no update be rejected. Then a run
  completes, whatever its batch size up to the largest \<open>bigint\<close> (a negative one
  included), and after a run that completed no row is eligible under the same chat
  scope: the second run counts zero rows and does nothing.
\<close>

theorem second_run_finds_nothing:
  assumes "\<forall>k texts. \<exists>vs. gen k texts = Some vs \<and> length texts \<le> length vs"
    and "\<forall>k i. \<not> wfail k i"
    and "\<forall>m \<in> set table. conditions (chatId (resolve_options cli options)) m \<longrightarrow> has_content (project m)"
  shows "(batch_size_or_default (batchSize (resolve_options cli options)) \<le> bigint_max \<longrightarrow>
            (\<exists>s'. embed gen wfail cli options table = Inr s'))
       \<and> (\<forall>s'. embed gen wfail cli options table = Inr s' \<longrightarrow>
            count_eligible (chatId (resolve_options cli options)) (store s') = 0
            \<and> embed gen' wfail' cli options (store s') = Inr (init_state (store s')))"
proof -
  let ?chat = "chatId (resolve_options cli options)"
  let ?n = "batch_size_or_default (batchSize (resolve_options cli options))"
  let ?count = "count_eligible ?chat table"
  have total: "?n \<le> bigint_max \<longrightarrow> (\<exists>s'. embed gen wfail cli options table = Inr s')"
    using embed_loop_returns [of ?n gen wfail ?chat ?count "init_state table"]
    by (simp add: embed_def Let_def)
  have after: "\<forall>s'. embed gen wfail cli options table = Inr s' \<longrightarrow>
            count_eligible ?chat (store s') = 0
            \<and> embed gen' wfail' cli options (store s') = Inr (init_state (store s'))"
  proof (intro allI impI)
    fix s' assume run: "embed gen wfail cli options table = Inr s'"
    have zero: "count_eligible ?chat (store s') = 0"
    proof (cases "?count = 0")
      case True
      with run have "s' = init_state table" by (simp add: embed_def Let_def)
      with True show ?thesis by (simp add: init_state_def)
    next
      case False
      with run have "embed_loop gen wfail ?chat ?n ?count (init_state table) = Inr s'"
        by (simp add: embed_def Let_def)
      from clean_loop_leaves_nothing [OF assms batch_size_or_default_nonzero this]
      show ?thesis by blast
    qed
    then have "embed gen' wfail' cli options (store s') = Inr (init_state (store s'))"
      by (simp add: embed_def Let_def)
    with zero show "count_eligible ?chat (store s') = 0
            \<and> embed gen' wfail' cli options (store s') = Inr (init_state (store s'))"
      by blast
  qed
  from total after show ?thesis by blast
qed

text \<open>Two messages with text, the default batch size, no chat scope.\<close>

theorem second_run_finds_nothing_witness:
  "\<exists>s'. embed always_embeds never_rejects default_cli no_options
          [text_message 1 1 (Some [104, 105]), text_message 2 1 (Some [32, 111, 107])] = Inr s'
        \<and> count_eligible None (store s') = 0
        \<and> embed provider_down (rejects 1) default_cli no_options (store s') = Inr (init_state (store s'))"
proof -
  let ?T = "[text_message 1 1 (Some [104, 105]), text_message 2 1 (Some [32, 111, 107])]"
  have chat: "chatId (resolve_options default_cli no_options) = None"
    and size: "batch_size_or_default (batchSize (resolve_options default_cli no_options)) = 100"
    by (simp_all add: resolve_options_def default_cli_def no_options_def)
  have h1: "\<forall>k texts. \<exists>vs. always_embeds k texts = Some vs \<and> length texts \<le> length vs"
    by (simp add: always_embeds_def)
  have h2: "\<forall>k i. \<not> never_rejects k i" by (simp add: never_rejects_def)
  have h3: "\<forall>m \<in> set ?T. conditions (chatId (resolve_options default_cli no_options)) m
              \<longrightarrow> has_content (project m)"
    by (simp add: chat example_defs)
  from second_run_finds_nothing [OF h1 h2 h3, of provider_down "rejects 1"] size chat
  show ?thesis by (auto simp: bigint_max_def)
qed

text \<open>
  One message without text (a photo, say): the run skips it, it keeps its null embedding,
  and the second run finds it eligible again.
\<close>

theorem second_run_counterexample:
  "embed always_embeds never_rejects default_cli no_options [text_message 1 1 None]
     = Inr \<lparr>store = [text_message 1 1 None], processed = 1, failed = 1, fetched = [1],
            sent = [], issued = [], logged = [WarnNoValidContent]\<rparr>
   \<and> count_eligible None [text_message 1 1 None] = 1"
  by (simp add: embed_def Let_def resolve_options_def default_cli_def no_options_def
      count_eligible_def process_batch_def example_defs)

section \<open>The number of fetches\<close>

lemma unique_ids_invariant:
  assumes d: "distinct (map msg_id (filter (conditions chat) table))"
    and n: "0 < n"
    and v: "visits gen wfail chat n count (init_state table) t"
    and count: "count = count_eligible chat table"
  shows "distinct (map msg_id (filter (conditions chat) (store t)))
       \<and> count \<le> processed t + count_eligible chat (store t)
       \<and> processed t = sum_list (fetched t)
       \<and> (fetched t = []
           \<or> (\<exists>k l. fetched t = replicate k (nat n) @ [l] \<and> 0 < l \<and> l \<le> nat n
                  \<and> k * nat n < count \<and> (l < nat n \<longrightarrow> count \<le> processed t)))"
proof (rule visits_invariant [OF v])
  show "distinct (map msg_id (filter (conditions chat) (store (init_state table))))
       \<and> count \<le> processed (init_state table) + count_eligible chat (store (init_state table))
       \<and> processed (init_state table) = sum_list (fetched (init_state table))
       \<and> (fetched (init_state table) = []
           \<or> (\<exists>k l. fetched (init_state table) = replicate k (nat n) @ [l] \<and> 0 < l \<and> l \<le> nat n
                  \<and> k * nat n < count \<and> (l < nat n \<longrightarrow> count \<le> processed (init_state table))))"
    using d count by (simp add: init_state_def)
next
  fix s :: loop_state and batch :: "batch_row list"
  let ?N = "nat n"
  let ?s0 = "s\<lparr>fetched := fetched s @ [length batch]\<rparr>"
  let ?s' = "process_batch gen wfail batch ?s0"
  assume I: "distinct (map msg_id (filter (conditions chat) (store s)))
       \<and> count \<le> processed s + count_eligible chat (store s)
       \<and> processed s = sum_list (fetched s)
       \<and> (fetched s = []
           \<or> (\<exists>k l. fetched s = replicate k ?N @ [l] \<and> 0 < l \<and> l \<le> ?N
                  \<and> k * ?N < count \<and> (l < ?N \<longrightarrow> count \<le> processed s)))"
    and head: "processed s < count"
    and sel: "select_batch chat (store s) n = Inr batch"
  have f': "fetched ?s' = fetched s @ [length batch]" by (simp add: fetched_process_batch)
  have p': "processed ?s' = processed s + length batch" by (simp add: processed_process_batch)
  have a: "distinct (map msg_id (filter (conditions chat) (store ?s')))"
    by (rule eligible_ids_process_batch) (use I in simp)
  have "count_eligible chat (store ?s0) \<le> count_eligible chat (store ?s') + length batch"
    by (rule eligible_lower_bound) (use I in simp)
  then have b: "count \<le> processed ?s' + count_eligible chat (store ?s')"
    using I p' by simp
  have c: "processed ?s' = sum_list (fetched ?s')"
    using I by (simp add: f' p')
  have len: "length batch = min ?N (count_eligible chat (store s))"
    using length_select_batch [OF sel] n by simp
  from I head have pos: "0 < count_eligible chat (store s)" by linarith
  from len pos n have lb: "0 < length batch" "length batch \<le> ?N" by simp_all
  have last: "length batch < ?N \<longrightarrow> count \<le> processed ?s'"
  proof
    assume "length batch < ?N"
    with len have "length batch = count_eligible chat (store s)" by (simp add: min_def split: if_splits)
    with I p' show "count \<le> processed ?s'" by simp
  qed
  have e: "\<exists>k l. fetched ?s' = replicate k ?N @ [l] \<and> 0 < l \<and> l \<le> ?N
                  \<and> k * ?N < count \<and> (l < ?N \<longrightarrow> count \<le> processed ?s')"
  proof (cases "fetched s = []")
    case True
    with I have "processed s = 0" by simp
    with head have "0 * ?N < count" by simp
    moreover have "fetched s @ [length batch] = replicate 0 ?N @ [length batch]"
      using True by simp
    with f' have "fetched ?s' = replicate 0 ?N @ [length batch]"
      by (rule trans)
    ultimately show ?thesis using lb last by blast
  next
    case False
    with I obtain k l where kl: "fetched s = replicate k ?N @ [l]" "0 < l" "l \<le> ?N"
        "k * ?N < count" "l < ?N \<longrightarrow> count \<le> processed s"
      by blast
    from kl(3,5) head have "l = ?N" by linarith
    with kl(1) have fs: "fetched s = replicate (Suc k) ?N"
      by (simp add: replicate_append_same)
    have "fetched s @ [length batch] = replicate (Suc k) ?N @ [length batch]"
      by (simp only: fs)
    with f' have "fetched ?s' = replicate (Suc k) ?N @ [length batch]"
      by (rule trans)
    moreover have "Suc k * ?N < count"
    proof -
      from I fs have "processed s = sum_list (replicate (Suc k) ?N)" by simp
      then have "processed s = Suc k * ?N" by (simp add: sum_list_replicate)
      with head show ?thesis by simp
    qed
    ultimately show ?thesis using lb last by blast
  qed
  from a b c e show "distinct (map msg_id (filter (conditions chat) (store ?s')))
       \<and> count \<le> processed ?s' + count_eligible chat (store ?s')
       \<and> processed ?s' = sum_list (fetched ?s')
       \<and> (fetched ?s' = []
           \<or> (\<exists>k l. fetched ?s' = replicate k ?N @ [l] \<and> 0 < l \<and> l \<le> ?N
                  \<and> k * ?N < count \<and> (l < ?N \<longrightarrow> count \<le> processed ?s')))"
    by blast
qed

lemma ceiling_div:
  fixes N :: nat
  assumes "k * N < count" "count \<le> k * N + l" "l \<le> N"
  shows "(count + N - 1) div N = Suc k"
proof (rule div_nat_eqI)
  from assms(1) show "N * Suc k \<le> count + N - 1" by (simp add: algebra_simps)
  from assms have "0 < N" by (cases N) auto
  with assms(2,3) show "count + N - 1 < N * Suc (Suc k)" by (simp add: algebra_simps)
qed

lemma fetches_of_run:
  assumes d: "distinct (map msg_id (filter (conditions chat) table))"
    and n: "0 < n"
    and run: "embed_loop gen wfail chat n (count_eligible chat table) (init_state table) = Inr s'"
  shows "visits gen wfail chat n (count_eligible chat table) (init_state table) s'
       \<and> count_eligible chat table \<le> processed s'
       \<and> processed s' = sum_list (fetched s')
       \<and> (fetched s' = [] \<and> count_eligible chat table = 0
           \<or> (\<exists>k l. fetched s' = replicate k (nat n) @ [l] \<and> 0 < l \<and> l \<le> nat n
                  \<and> k * nat n < count_eligible chat table
                  \<and> count_eligible chat table \<le> k * nat n + l))"
proof -
  let ?count = "count_eligible chat table"
  from embed_loop_exit [OF run] obtain t where
    v: "visits gen wfail chat n ?count (init_state table) t"
    and exit: "?count \<le> processed t \<and> s' = t \<or>
        processed t < ?count \<and> select_batch chat (store t) n = Inr [] \<and> s' = t\<lparr>fetched := fetched t @ [0]\<rparr>"
    by blast
  from unique_ids_invariant [OF d n v refl]
  have I: "?count \<le> processed t + count_eligible chat (store t)"
    "processed t = sum_list (fetched t)"
    "fetched t = []
           \<or> (\<exists>k l. fetched t = replicate k (nat n) @ [l] \<and> 0 < l \<and> l \<le> nat n
                  \<and> k * nat n < ?count \<and> (l < nat n \<longrightarrow> ?count \<le> processed t))"
    by blast+
  have no_break: "\<not> (processed t < ?count \<and> select_batch chat (store t) n = Inr [])"
  proof
    assume e: "processed t < ?count \<and> select_batch chat (store t) n = Inr []"
    then have "select_batch chat (store t) n = Inr []" by simp
    from length_select_batch [OF this] n
    have "min (nat n) (count_eligible chat (store t)) = 0" by simp
    with n have "count_eligible chat (store t) = 0" by (simp add: min_def split: if_splits)
    with I(1) e show False by simp
  qed
  with exit have finished: "?count \<le> processed t" and s': "s' = t" by blast+
  from I(3) have shape: "fetched t = [] \<and> ?count = 0
           \<or> (\<exists>k l. fetched t = replicate k (nat n) @ [l] \<and> 0 < l \<and> l \<le> nat n
                  \<and> k * nat n < ?count \<and> ?count \<le> k * nat n + l)"
  proof
    assume "fetched t = []"
    with I(2) finished show ?thesis by simp
  next
    assume "\<exists>k l. fetched t = replicate k (nat n) @ [l] \<and> 0 < l \<and> l \<le> nat n
                  \<and> k * nat n < ?count \<and> (l < nat n \<longrightarrow> ?count \<le> processed t)"
    then obtain k l where kl: "fetched t = replicate k (nat n) @ [l]" "0 < l" "l \<le> nat n"
        "k * nat n < ?count"
      by blast
    from I(2) kl(1) have "processed t = k * nat n + l" by (simp add: sum_list_replicate)
    with finished have "?count \<le> k * nat n + l" by simp
    with kl show ?thesis by blast
  qed
  from v finished I(2) shape show ?thesis unfolding s' by blast
qed

text \<open>
  Claim C3, as the code has it. Let the eligible rows have different ids and the batch
  size be positive and at most the largest \<open>bigint\<close>. Then the loop returns; every fetch
  returns between 1 and \<open>batchSize\<close> rows and every fetch but the last \<open>batchSize\<close>
  rows; \<open>processed\<close> ends as the sum of the fetched lengths, at least \<open>total\<close>; and the
  number of fetches is \<open>total\<close> divided by \<open>batchSize\<close>, rounded up. With 250 rows and
  batches of 100 these are three fetches of 100, 100 and between 50 and 100 rows. The
  third fetch has 50 rows when every eligible row has text, the provider answers in
  full and no update is rejected; then \<open>processed\<close> ends as \<open>total\<close>.
\<close>

theorem fetches_bounded:
  assumes "distinct (map msg_id (filter (conditions chat) table))" and "0 < n"
    and "n \<le> bigint_max"
  shows "\<exists>s'. embed_loop gen wfail chat n (count_eligible chat table) (init_state table) = Inr s'
      \<and> sum_list (fetched s') = processed s'
      \<and> count_eligible chat table \<le> processed s'
      \<and> length (fetched s') = (count_eligible chat table + nat n - 1) div nat n
      \<and> (\<forall>x \<in> set (fetched s'). 0 < x \<and> x \<le> nat n)
      \<and> (\<forall>x \<in> set (butlast (fetched s')). x = nat n)
      \<and> (count_eligible chat table = 250 \<and> n = 100 \<longrightarrow>
            (\<exists>l. fetched s' = [100, 100, l] \<and> 50 \<le> l \<and> l \<le> 100))
      \<and> ((\<forall>k texts. \<exists>vs. gen k texts = Some vs \<and> length texts \<le> length vs)
           \<and> (\<forall>k i. \<not> wfail k i)
           \<and> (\<forall>m \<in> set table. conditions chat m \<longrightarrow> has_content (project m)) \<longrightarrow>
            processed s' = count_eligible chat table
            \<and> (count_eligible chat table = 250 \<and> n = 100 \<longrightarrow> fetched s' = [100, 100, 50]))"
proof -
  let ?count = "count_eligible chat table"
  let ?N = "nat n"
  from embed_loop_returns [OF assms(3)] obtain s' where
    run: "embed_loop gen wfail chat n ?count (init_state table) = Inr s'"
    by blast
  from fetches_of_run [OF assms(1,2) run]
  have v: "visits gen wfail chat n ?count (init_state table) s'"
    and finished: "?count \<le> processed s'"
    and sum: "processed s' = sum_list (fetched s')"
    and shape: "fetched s' = [] \<and> ?count = 0
           \<or> (\<exists>k l. fetched s' = replicate k ?N @ [l] \<and> 0 < l \<and> l \<le> ?N
                  \<and> k * ?N < ?count \<and> ?count \<le> k * ?N + l)"
    by blast+
  from assms(2) have N: "0 < ?N" by simp
  have len: "length (fetched s') = (?count + ?N - 1) div ?N"
    using shape
  proof
    assume "fetched s' = [] \<and> ?count = 0"
    with N show ?thesis by simp
  next
    assume "\<exists>k l. fetched s' = replicate k ?N @ [l] \<and> 0 < l \<and> l \<le> ?N
                  \<and> k * ?N < ?count \<and> ?count \<le> k * ?N + l"
    then obtain k l where kl: "fetched s' = replicate k ?N @ [l]" "l \<le> ?N"
        "k * ?N < ?count" "?count \<le> k * ?N + l"
      by blast
    from ceiling_div [OF kl(3,4,2)] kl(1) show ?thesis by simp
  qed
  have each: "\<forall>x \<in> set (fetched s'). 0 < x \<and> x \<le> ?N"
    using shape N by auto
  have but: "\<forall>x \<in> set (butlast (fetched s')). x = ?N"
    using shape by auto
  have c250: "?count = 250 \<and> n = 100 \<longrightarrow> (\<exists>l. fetched s' = [100, 100, l] \<and> 50 \<le> l \<and> l \<le> 100)"
  proof
    assume a: "?count = 250 \<and> n = 100"
    with shape obtain k l where kl: "fetched s' = replicate k 100 @ [l]" "0 < l" "l \<le> 100"
        "k * 100 < 250" "250 \<le> k * 100 + l"
      by auto
    from kl(3,4,5) have "k = 2" by linarith
    with kl have "fetched s' = [100, 100, l]" "50 \<le> l" "l \<le> 100"
      by (simp_all add: numeral_2_eq_2)
    then show "\<exists>l. fetched s' = [100, 100, l] \<and> 50 \<le> l \<and> l \<le> 100" by blast
  qed
  have clean: "(\<forall>k texts. \<exists>vs. gen k texts = Some vs \<and> length texts \<le> length vs)
           \<and> (\<forall>k i. \<not> wfail k i)
           \<and> (\<forall>m \<in> set table. conditions chat m \<longrightarrow> has_content (project m)) \<longrightarrow>
            processed s' = ?count
            \<and> (?count = 250 \<and> n = 100 \<longrightarrow> fetched s' = [100, 100, 50])"
  proof
    assume h: "(\<forall>k texts. \<exists>vs. gen k texts = Some vs \<and> length texts \<le> length vs)
           \<and> (\<forall>k i. \<not> wfail k i)
           \<and> (\<forall>m \<in> set table. conditions chat m \<longrightarrow> has_content (project m))"
    then have h1: "\<forall>k texts. \<exists>vs. gen k texts = Some vs \<and> length texts \<le> length vs"
      and h2: "\<forall>k i. \<not> wfail k i"
      and h3: "\<forall>m \<in> set table. conditions chat m \<longrightarrow> has_content (project m)"
      by blast+
    from clean_run_invariant [OF h1 h2 h3 v refl] have "processed s' \<le> ?count" by simp
    with finished have p: "processed s' = ?count" by simp
    have "?count = 250 \<and> n = 100 \<longrightarrow> fetched s' = [100, 100, 50]"
    proof
      assume a: "?count = 250 \<and> n = 100"
      with c250 obtain l where l: "fetched s' = [100, 100, l]" by blast
      with sum p a have "l = 50" by simp
      with l show "fetched s' = [100, 100, 50]" by simp
    qed
    with p show "processed s' = ?count \<and> (?count = 250 \<and> n = 100 \<longrightarrow> fetched s' = [100, 100, 50])"
      by blast
  qed
  from run sum finished len each but c250 clean show ?thesis by (intro exI [of _ s']) simp
qed

text \<open>
  Five rows, the first without text, batches of two: three fetches. (Each fetch returns
  two rows, the first row being fetched again each time.)
\<close>

theorem fetches_bounded_witness:
  "\<exists>s'. embed_loop always_embeds never_rejects None 2 5
          (init_state [text_message 1 1 None, text_message 2 1 (Some [97]),
             text_message 3 1 (Some [98]), text_message 4 1 (Some [99]),
             text_message 5 1 (Some [100])]) = Inr s'
        \<and> length (fetched s') = 3 \<and> sum_list (fetched s') = processed s' \<and> 5 \<le> processed s'
        \<and> (\<forall>x \<in> set (fetched s'). 0 < x \<and> x \<le> 2)"
proof -
  let ?T = "[text_message 1 1 None, text_message 2 1 (Some [97]),
             text_message 3 1 (Some [98]), text_message 4 1 (Some [99]),
             text_message 5 1 (Some [100])]"
  have d: "distinct (map msg_id (filter (conditions None) ?T))"
    by (simp add: conditions_def chat_condition_def text_message_def)
  have c: "count_eligible None ?T = 5"
    by (simp add: count_eligible_def conditions_def chat_condition_def text_message_def)
  have n: "(0::int) < 2" by simp
  have b: "(2::int) \<le> bigint_max" by (simp add: bigint_max_def)
  have m: "(5 + nat 2 - 1) div nat 2 = (3::nat)" by simp
  from fetches_bounded [where gen = always_embeds and wfail = never_rejects, OF d n b]
  show ?thesis unfolding c m by (simp only: nat_numeral) blast
qed

text \<open>
  250 messages without text (photos, say) and batches of 100: the run fetches the same
  100 rows three times, counts 300 rows as processed and leaves all 250 eligible. One id
  in three chats and no chat scope: one update makes three rows ineligible, and four
  eligible rows in batches of two take three fetches, of two rows and then twice of the
  row without text. A batch size of \<open>2 ^ 63\<close>: the first select fails and the run with it.
\<close>

theorem fetches_counterexample:
  "(count_eligible None (rows_without_text 250) = 250
    \<and> (case embed always_embeds never_rejects default_cli \<lparr>batchSize = Some (Num 100), chatId = None\<rparr>
              (rows_without_text 250) of
          Inl e \<Rightarrow> ([], 0, 0)
        | Inr s \<Rightarrow> (fetched s, processed s, count_eligible None (store s)))
       = ([100, 100, 100], 300, 250))
   \<and> (count_eligible None [text_message 9 1 None, text_message 1 1 (Some [97]),
         text_message 1 2 (Some [97]), text_message 1 3 (Some [97])] = 4
      \<and> (case embed always_embeds never_rejects default_cli \<lparr>batchSize = Some (Num 2), chatId = None\<rparr>
                [text_message 9 1 None, text_message 1 1 (Some [97]),
                 text_message 1 2 (Some [97]), text_message 1 3 (Some [97])] of
            Inl e \<Rightarrow> []
          | Inr s \<Rightarrow> fetched s)
         = [2, 1, 1])
   \<and> embed always_embeds never_rejects default_cli
        \<lparr>batchSize = Some (Num 9223372036854775808), chatId = None\<rparr>
        [text_message 1 1 (Some [97])]
      = Inl BigintOutOfRange"
proof -
  have without_text:
    "count_eligible None (rows_without_text 250) = 250
     \<and> (case embed always_embeds never_rejects default_cli \<lparr>batchSize = Some (Num 100), chatId = None\<rparr>
               (rows_without_text 250) of
           Inl e \<Rightarrow> ([], 0, 0)
         | Inr s \<Rightarrow> (fetched s, processed s, count_eligible None (store s)))
        = ([100, 100, 100], 300, 250)"
    by code_simp
  have repeated_ids:
    "count_eligible None [text_message 9 1 None, text_message 1 1 (Some [97]),
         text_message 1 2 (Some [97]), text_message 1 3 (Some [97])] = 4
      \<and> (case embed always_embeds never_rejects default_cli \<lparr>batchSize = Some (Num 2), chatId = None\<rparr>
                [text_message 9 1 None, text_message 1 1 (Some [97]),
                 text_message 1 2 (Some [97]), text_message 1 3 (Some [97])] of
            Inl e \<Rightarrow> []
          | Inr s \<Rightarrow> fetched s)
         = [2, 1, 1]"
    by (simp add: embed_def resolve_options_def default_cli_def
        count_eligible_def process_batch_def Let_def apply_updates_def
        update_embedding_def example_defs)
  have too_big:
    "embed always_embeds never_rejects default_cli
        \<lparr>batchSize = Some (Num 9223372036854775808), chatId = None\<rparr>
        [text_message 1 1 (Some [97])]
      = Inl BigintOutOfRange"
    by (simp add: embed_def resolve_options_def default_cli_def
        count_eligible_def Let_def example_defs)
  show ?thesis by (rule conjI [OF without_text conjI [OF repeated_ids too_big]])
qed

end
